theory Spec2Isabelle
  imports Main "HOL-Library.Word" "HOL-Library.Sublist"
begin

section \<open>Purple: LLVM-IR emission (src/translate/llvm.c)\<close>

subsection \<open>Data\<close>

text \<open>
  \<^verbatim>\<open>type_register\<close> is printed with \<^verbatim>\<open>%llu\<close> throughout llvm.c: an unsigned 64-bit
  integer. Its arithmetic wraps around, as \<^typ>\<open>64 word\<close> does.
\<close>

type_synonym type_register = "64 word"

text \<open>The token types that scan.c produces.\<close>

datatype TokenType =
    T_EOF
  | T_PLUS
  | T_MINUS
  | T_STAR
  | T_SLASH
  | T_EXPONENT
  | T_INTEGER_LITERAL
  | T_SEMICOLON
  | T_PRINT

text \<open>The return codes that the calls of \<^verbatim>\<open>fatal\<close> in the source files pass.\<close>

datatype ReturnCode = RC_ERROR | RC_MEMORY_ERROR | RC_FILE_ERROR | RC_COMPILER_ERROR

text \<open>types/number.h\<close>

datatype NumberType = NT_INT32

fun numberTypeByteSizes :: "NumberType \<Rightarrow> int" where
  "numberTypeByteSizes NT_INT32 = 4"

fun numberTypeFormatStrings :: "NumberType \<Rightarrow> string" where
  "numberTypeFormatStrings NT_INT32 = ''%d''"

record Number =
  type :: NumberType
  int_value :: int

definition NUMBER_INT32 :: "int \<Rightarrow> Number" where
  "NUMBER_INT32 v = \<lparr>type = NT_INT32, int_value = v\<rparr>"

text \<open>
  Modelled from the spec: \<^verbatim>\<open>LLVMValue\<close> and its two constructor macros are declared in
  translate/llvm.h, which is not among the source files. llvm.c reads the field
  \<^verbatim>\<open>value.virtual_register_index\<close>; the spec has a value reference "tagged as either value
  (register directly holds the computed number) or address (register holds the location of
  a stack slot containing the number)".
\<close>

datatype LLVMValueType = LLVMVALUETYPE_VIRTUAL_REGISTER | LLVMVALUETYPE_VIRTUAL_REGISTER_POINTER

record LLVMValue =
  value_type :: LLVMValueType
  virtual_register_index :: type_register

definition LLVMVALUE_VIRTUAL_REGISTER :: "type_register \<Rightarrow> LLVMValue" where
  "LLVMVALUE_VIRTUAL_REGISTER r =
     \<lparr>value_type = LLVMVALUETYPE_VIRTUAL_REGISTER, virtual_register_index = r\<rparr>"

definition LLVMVALUE_VIRTUAL_REGISTER_POINTER :: "type_register \<Rightarrow> LLVMValue" where
  "LLVMVALUE_VIRTUAL_REGISTER_POINTER r =
     \<lparr>value_type = LLVMVALUETYPE_VIRTUAL_REGISTER_POINTER, virtual_register_index = r\<rparr>"

text \<open>
  A node of the stack-entry list that \<^verbatim>\<open>llvm_stack_allocation\<close> walks; the list itself is
  the chain of \<^verbatim>\<open>next\<close> pointers. The fields are the ones llvm.c reads: \<^verbatim>\<open>reg\<close>,
  \<^verbatim>\<open>type\<close> (here \<open>node_type\<close>) and \<^verbatim>\<open>align_bytes\<close>.
\<close>

record LLVMStackEntryNode =
  reg :: type_register
  node_type :: NumberType
  align_bytes :: int

subsection \<open>The output file\<close>

text \<open>
  \<^verbatim>\<open>D_LLVM_FILE\<close> is written line by line. Each line that llvm.c prints is kept with the
  arguments of its \<^verbatim>\<open>fprintf\<close>; \<open>render\<close> below expands it to the text of the format
  string. A table entry \<^verbatim>\<open>numberTypeLLVMReprs[t]\<close> is kept as its index \<open>t\<close>, the table
  being declared in llvm.h.
\<close>

datatype ir_line =
    LOAD type_register type_register
  | ALLOCA type_register NumberType int
  | ADD type_register type_register type_register
  | SUB type_register type_register type_register
  | MUL type_register type_register type_register
  | UDIV type_register type_register type_register
  | STORE NumberType string int type_register int
  | CALL_PRINTF type_register
  | TEXT string

subsection \<open>Global data (data.h)\<close>

text \<open>
  The two linked lists \<^verbatim>\<open>loadedRegistersHead\<close> and \<^verbatim>\<open>freeVirtualRegistersHead\<close> are kept as
  the lists of the \<^verbatim>\<open>reg\<close> fields of their nodes, head first: it is the only field that
  \<^verbatim>\<open>prepend_loaded\<close> writes and \<^verbatim>\<open>llvm_ensure_registers_loaded\<close> reads.
  \<open>purple_log_calls\<close> is the sequence of the calls of \<^verbatim>\<open>purple_log\<close>, each with its level
  and its format string (the arguments of the format are not kept).
\<close>

datatype LogLevel = LOG_DEBUG | LOG_ERROR

record globals =
  D_LLVM_LOCAL_VIRTUAL_REGISTER_NUMBER :: type_register
  loadedRegistersHead :: "type_register list"
  freeVirtualRegistersHead :: "type_register list"
  D_LLVM_FILE :: "ir_line list"
  D_INPUT_FN :: string
  generatorProgramWritten :: bool
  purple_log_calls :: "(LogLevel \<times> string) list"

definition fprintf :: "ir_line \<Rightarrow> globals \<Rightarrow> globals" where
  "fprintf l s = s\<lparr>D_LLVM_FILE := D_LLVM_FILE s @ [l]\<rparr>"

text \<open>
  Modelled from the spec: \<^verbatim>\<open>fatal\<close> is defined in utils/logging.c, which is not among the
  source files. Fatal conditions "abort the entire compilation immediately with a
  categorized exit code and message; no cleanup of partially written IR files is
  performed". A run that aborts is \<open>Inl\<close> of the return code and of the global data at
  that moment; a call that returns is \<open>Inr\<close>.
\<close>

type_synonym 'a result = "(ReturnCode \<times> globals) + 'a"

definition fatal :: "ReturnCode \<Rightarrow> globals \<Rightarrow> 'a result" where
  "fatal rc s = Inl (rc, s)"

text \<open>
  Modelled from the spec: \<^verbatim>\<open>purple_log\<close> is defined in utils/logging.c, which is not among
  the source files. A condition that is "logged as an error" is reported and the caller
  goes on.
\<close>

definition purple_log :: "LogLevel \<Rightarrow> string \<Rightarrow> globals \<Rightarrow> globals" where
  "purple_log level format s = s\<lparr>purple_log_calls := purple_log_calls s @ [(level, format)]\<rparr>"

subsection \<open>Registers\<close>

definition get_next_local_virtual_register :: "globals \<Rightarrow> type_register \<times> globals" where
  "get_next_local_virtual_register s =
     (D_LLVM_LOCAL_VIRTUAL_REGISTER_NUMBER s,
      s\<lparr>D_LLVM_LOCAL_VIRTUAL_REGISTER_NUMBER := D_LLVM_LOCAL_VIRTUAL_REGISTER_NUMBER s + 1\<rparr>)"

definition prepend_loaded :: "type_register \<Rightarrow> globals \<Rightarrow> globals" where
  "prepend_loaded r s =
     (if loadedRegistersHead s = [] then s\<lparr>loadedRegistersHead := [r]\<rparr>
      else s\<lparr>loadedRegistersHead := r # loadedRegistersHead s\<rparr>)"

subsection \<open>llvm_ensure_registers_loaded\<close>

text \<open>
  The inner \<^verbatim>\<open>for\<close> loop of the search (one node \<open>current_reg\<close> of the loaded list against
  every position \<open>i\<close>). \<open>None\<close> is the \<^verbatim>\<open>return NULL\<close> inside the loop; the test
  \<^verbatim>\<open>found == n_registers\<close> is made at every position, hit or not.
\<close>

function search_for ::
  "type_register \<Rightarrow> type_register list \<Rightarrow> nat \<Rightarrow> bool list \<Rightarrow> nat \<Rightarrow> (bool list \<times> nat) option"
where
  "search_for current_reg registers i found_registers found =
     (if i < length registers then
        (let hit = (\<not> found_registers ! i \<and> current_reg = registers ! i);
             found_registers' = (if hit then found_registers[i := True] else found_registers);
             found' = (if hit then found + 1 else found)
         in if found' = length registers then None
            else search_for current_reg registers (i + 1) found_registers' found')
      else Some (found_registers, found))"
  by pat_completeness auto
termination
  by (relation "measure (\<lambda>(current_reg, registers, i, found_registers, found). length registers - i)") auto

declare search_for.simps [simp del]

text \<open>The \<^verbatim>\<open>while (current)\<close> loop over the loaded list.\<close>

fun search_while ::
  "type_register list \<Rightarrow> type_register list \<Rightarrow> bool list \<Rightarrow> nat \<Rightarrow> (bool list \<times> nat) option"
where
  "search_while [] registers found_registers found = Some (found_registers, found)"
| "search_while (current_reg # next) registers found_registers found =
     (case search_for current_reg registers 0 found_registers found of
        None \<Rightarrow> None
      | Some (found_registers', found') \<Rightarrow> search_while next registers found_registers' found')"

text \<open>
  The second \<^verbatim>\<open>for\<close> loop: a position that was not found gets the next virtual register, a
  load into it is printed and the new register is prepended to the loaded list.
\<close>

function load_for ::
  "type_register list \<Rightarrow> bool list \<Rightarrow> nat \<Rightarrow> type_register list \<Rightarrow> globals
     \<Rightarrow> type_register list \<times> globals"
where
  "load_for registers found_registers i loaded_registers s =
     (if i < length registers then
        (if \<not> found_registers ! i then
           (let (r, s1) = get_next_local_virtual_register s;
                s2 = fprintf (LOAD r (registers ! i)) s1;
                s3 = prepend_loaded r s2
            in load_for registers found_registers (i + 1) (loaded_registers[i := r]) s3)
         else load_for registers found_registers (i + 1)
                (loaded_registers[i := registers ! i]) s)
      else (loaded_registers, s))"
  by pat_completeness auto
termination
  by (relation "measure (\<lambda>(registers, found_registers, i, loaded_registers, s). length registers - i)")
     auto

declare load_for.simps [simp del]

text \<open>
  The argument \<^verbatim>\<open>registers\<close> is a list and \<^verbatim>\<open>n_registers\<close> its length.
  \<^verbatim>\<open>bool found_registers[n_registers]\<close> is declared without an initialiser, so the search
  starts from whatever the stack holds: \<open>stack i\<close> is the initial content of cell \<open>i\<close>.
  \<open>zeroed\<close> is a stack whose cells are all false. The block that \<^verbatim>\<open>malloc\<close> returns for
  \<^verbatim>\<open>loaded_registers\<close> is written at every index before it is returned; it starts here as
  zeros. The result \<open>None\<close> is the \<^verbatim>\<open>NULL\<close> that the function returns when the search has
  found every position.
\<close>

definition zeroed :: "nat \<Rightarrow> bool" where
  "zeroed i = False"

definition llvm_ensure_registers_loaded ::
  "(nat \<Rightarrow> bool) \<Rightarrow> type_register list \<Rightarrow> globals \<Rightarrow> type_register list option \<times> globals"
where
  "llvm_ensure_registers_loaded stack registers s =
     (let n_registers = length registers;
          found_registers = map stack [0..<n_registers]
      in case search_while (loadedRegistersHead s) registers found_registers 0 of
           None \<Rightarrow> (None, s)
         | Some (found_registers', found) \<Rightarrow>
             (let (loaded_registers, s') =
                    load_for registers found_registers' 0 (replicate n_registers 0) s
              in (Some loaded_registers, s')))"

subsection \<open>Stack allocation, arithmetic, constants, printing\<close>

fun llvm_stack_allocation :: "LLVMStackEntryNode list \<Rightarrow> globals \<Rightarrow> globals" where
  "llvm_stack_allocation [] s = s"
| "llvm_stack_allocation (current # next) s =
     llvm_stack_allocation next
       (fprintf (ALLOCA (reg current) (node_type current) (align_bytes current)) s)"

definition llvm_add :: "LLVMValue \<Rightarrow> LLVMValue \<Rightarrow> globals \<Rightarrow> type_register \<times> globals" where
  "llvm_add left_virtual_register right_virtual_register s =
     (let (r, s1) = get_next_local_virtual_register s;
          s2 = fprintf (ADD r (virtual_register_index left_virtual_register)
                              (virtual_register_index right_virtual_register)) s1
      in (D_LLVM_LOCAL_VIRTUAL_REGISTER_NUMBER s2 - 1, s2))"

definition llvm_subtract :: "LLVMValue \<Rightarrow> LLVMValue \<Rightarrow> globals \<Rightarrow> type_register \<times> globals" where
  "llvm_subtract left_virtual_register right_virtual_register s =
     (let (r, s1) = get_next_local_virtual_register s;
          s2 = fprintf (SUB r (virtual_register_index left_virtual_register)
                              (virtual_register_index right_virtual_register)) s1
      in (D_LLVM_LOCAL_VIRTUAL_REGISTER_NUMBER s2 - 1, s2))"

definition llvm_multiply :: "LLVMValue \<Rightarrow> LLVMValue \<Rightarrow> globals \<Rightarrow> type_register \<times> globals" where
  "llvm_multiply left_virtual_register right_virtual_register s =
     (let (r, s1) = get_next_local_virtual_register s;
          s2 = fprintf (MUL r (virtual_register_index left_virtual_register)
                              (virtual_register_index right_virtual_register)) s1
      in (D_LLVM_LOCAL_VIRTUAL_REGISTER_NUMBER s2 - 1, s2))"

definition llvm_divide :: "LLVMValue \<Rightarrow> LLVMValue \<Rightarrow> globals \<Rightarrow> type_register \<times> globals" where
  "llvm_divide left_virtual_register right_virtual_register s =
     (let (r, s1) = get_next_local_virtual_register s;
          s2 = fprintf (UDIV r (virtual_register_index left_virtual_register)
                               (virtual_register_index right_virtual_register)) s1
      in (D_LLVM_LOCAL_VIRTUAL_REGISTER_NUMBER s2 - 1, s2))"

text \<open>
  The \<^verbatim>\<open>switch\<close> on the operation. Both \<^verbatim>\<open>fatal\<close> branches leave the function before
  \<^verbatim>\<open>prepend_loaded\<close>.
\<close>

definition llvm_binary_arithmetic ::
  "TokenType \<Rightarrow> LLVMValue \<Rightarrow> LLVMValue \<Rightarrow> globals \<Rightarrow> (LLVMValue \<times> globals) result"
where
  "llvm_binary_arithmetic operation left_virtual_register right_virtual_register s =
     (let switch =
            (case operation of
               T_PLUS \<Rightarrow> Inr (llvm_add left_virtual_register right_virtual_register s)
             | T_MINUS \<Rightarrow> Inr (llvm_subtract left_virtual_register right_virtual_register s)
             | T_STAR \<Rightarrow> Inr (llvm_multiply left_virtual_register right_virtual_register s)
             | T_SLASH \<Rightarrow> Inr (llvm_divide left_virtual_register right_virtual_register s)
             | T_EXPONENT \<Rightarrow> fatal RC_COMPILER_ERROR s
             | _ \<Rightarrow> fatal RC_COMPILER_ERROR s)
      in case switch of
           Inl abort \<Rightarrow> Inl abort
         | Inr (out_register, s1) \<Rightarrow>
             Inr (LLVMVALUE_VIRTUAL_REGISTER out_register, prepend_loaded out_register s1))"

text \<open>
  Modelled from the spec: \<^verbatim>\<open>pop_stack_entry_linked_list\<close> is defined in
  translate/translate.c, which is not among the source files. The spec has
  \<^verbatim>\<open>emit_store_constant\<close> obtain its target register by "reusing one from the
  free-register stack if available, otherwise minting a new one".
\<close>

definition pop_stack_entry_linked_list :: "globals \<Rightarrow> type_register \<times> globals" where
  "pop_stack_entry_linked_list s =
     (case freeVirtualRegistersHead s of
        r # rest \<Rightarrow> (r, s\<lparr>freeVirtualRegistersHead := rest\<rparr>)
      | [] \<Rightarrow> get_next_local_virtual_register s)"

text \<open>The three \<^verbatim>\<open>fprintf\<close> calls of \<^verbatim>\<open>llvm_store_constant\<close> print one line.\<close>

definition llvm_store_constant :: "Number \<Rightarrow> globals \<Rightarrow> LLVMValue \<times> globals" where
  "llvm_store_constant v s =
     (let (out_register_number, s1) = pop_stack_entry_linked_list s;
          s2 = fprintf (STORE (type v) (numberTypeFormatStrings (type v)) (int_value v)
                          out_register_number (numberTypeByteSizes (type v))) s1
      in (LLVMVALUE_VIRTUAL_REGISTER_POINTER out_register_number, s2))"

definition llvm_print_int :: "type_register \<Rightarrow> globals \<Rightarrow> globals" where
  "llvm_print_int print_vr s =
     (let (r, s1) = get_next_local_virtual_register s
      in fprintf (CALL_PRINTF print_vr) s1)"

subsection \<open>The text of a line\<close>

text \<open>
  \<^verbatim>\<open>TAB\<close> and \<^verbatim>\<open>NEWLINE\<close> (utils/formatting.h) and the table \<^verbatim>\<open>numberTypeLLVMReprs\<close>
  (translate/llvm.h) are not among the source files: the text takes them as parameters.
\<close>

record formatting =
  TAB :: string
  NEWLINE :: string
  numberTypeLLVMReprs :: "NumberType \<Rightarrow> string"

fun decimal :: "nat \<Rightarrow> string" where
  "decimal n =
     (if n < 10 then [''0123456789'' ! n]
      else decimal (n div 10) @ [''0123456789'' ! (n mod 10)])"

declare decimal.simps [simp del]

text \<open>The conversions \<^verbatim>\<open>%llu\<close> and \<^verbatim>\<open>%d\<close>.\<close>

definition percent_llu :: "type_register \<Rightarrow> string" where
  "percent_llu r = decimal (unat r)"

definition percent_d :: "int \<Rightarrow> string" where
  "percent_d v = (if v < 0 then ''-'' @ decimal (nat (- v)) else decimal (nat v))"

text \<open>
  \<^verbatim>\<open>fprintf(D_LLVM_FILE, numberTypeFormatStrings[value.type], value.value)\<close>: a format
  string with one integer argument, for the conversion \<^verbatim>\<open>%d\<close> that the table holds.
\<close>

fun fprintf_number :: "string \<Rightarrow> int \<Rightarrow> string" where
  "fprintf_number [] v = []"
| "fprintf_number (ch # rest) v =
     (if ch = CHR ''%'' \<and> take 1 rest = ''d'' then percent_d v @ drop 1 rest
      else ch # fprintf_number rest v)"

fun render :: "formatting \<Rightarrow> ir_line \<Rightarrow> string" where
  "render f (LOAD r a) =
     TAB f @ ''%'' @ percent_llu r @ '' = load i32, i32* %'' @ percent_llu a @ '', align 4''
       @ NEWLINE f"
| "render f (ALLOCA r t a) =
     TAB f @ ''%'' @ percent_llu r @ '' = alloca '' @ numberTypeLLVMReprs f t @ '', align ''
       @ percent_d a @ NEWLINE f"
| "render f (ADD r left right) =
     TAB f @ ''%'' @ percent_llu r @ '' = add nsw i32 %'' @ percent_llu left @ '', %''
       @ percent_llu right @ NEWLINE f"
| "render f (SUB r left right) =
     TAB f @ ''%'' @ percent_llu r @ '' = sub nsw i32 %'' @ percent_llu left @ '', %''
       @ percent_llu right @ NEWLINE f"
| "render f (MUL r left right) =
     TAB f @ ''%'' @ percent_llu r @ '' = mul nsw i32 %'' @ percent_llu left @ '', %''
       @ percent_llu right @ NEWLINE f"
| "render f (UDIV r left right) =
     TAB f @ ''%'' @ percent_llu r @ '' = udiv i32 %'' @ percent_llu left @ '', %''
       @ percent_llu right @ NEWLINE f"
| "render f (STORE t format v r bytes) =
     TAB f @ ''store '' @ numberTypeLLVMReprs f t @ '' ''
       @ fprintf_number format v
       @ '', '' @ numberTypeLLVMReprs f t @ ''* %'' @ percent_llu r @ '', align ''
       @ percent_d bytes @ NEWLINE f"
| "render f (CALL_PRINTF r) =
     TAB f @ ''call i32 (i8*, ...) @printf(i8* getelementptr inbounds ([4 x i8], [4 x ''
       @ ''i8]* @print_int_fstring , i32 0, i32 0), i32 %'' @ percent_llu r @ '')''
       @ NEWLINE f"
| "render f (TEXT t) = t @ NEWLINE f"

definition file_text :: "formatting \<Rightarrow> globals \<Rightarrow> string" where
  "file_text f s = concat (map (render f) (D_LLVM_FILE s))"

section \<open>The toolchain probe (src/utils/clang.c)\<close>

text \<open>
  What the operating system answers is an input of the model. A \<open>process\<close> is one
  \<^verbatim>\<open>popen\<close> ... \<^verbatim>\<open>pclose\<close> round trip: the strings that the successive calls of \<^verbatim>\<open>fgets\<close>
  read from the pipe, and the value of \<^verbatim>\<open>pclose\<close>. The result of \<^verbatim>\<open>popen\<close> is passed to
  \<^verbatim>\<open>fgets\<close> unchecked in the source; the model covers the runs in which \<^verbatim>\<open>popen\<close> returns
  a stream. The names of the temporary files, and the echo of the output of clang on the
  standard output, are not modelled.
\<close>

record process =
  fgets_lines :: "string list"
  pclose_status :: int

text \<open>
  \<open>fopen_generator_program\<close>: whether the generator source could be opened for writing.
  \<open>fopen_generator_program_ll\<close>: the strings that \<^verbatim>\<open>fgets\<close> reads from the LLVM file of
  the generator program, \<open>None\<close> when it cannot be opened. \<open>regcomp\<close> and \<open>regexec\<close> are
  the POSIX functions: whether a regular expression compiles, and the offsets
  \<^verbatim>\<open>(rm_so, rm_eo)\<close> of the match and of its first group in a string. \<open>malloc_64\<close> is the
  content of the block that \<^verbatim>\<open>malloc(64)\<close> returns.
\<close>

record environment =
  fopen_generator_program :: bool
  clang_emit_llvm :: process
  fopen_generator_program_ll :: "string list option"
  clang_print_target_triple :: process
  regcomp :: "string \<Rightarrow> bool"
  regexec :: "string \<Rightarrow> string \<Rightarrow> (nat \<times> nat) list option"
  malloc_64 :: string

definition create_tmp_generator_program :: "environment \<Rightarrow> globals \<Rightarrow> globals result" where
  "create_tmp_generator_program env s =
     (let s1 = purple_log LOG_DEBUG ''Creating generator program file'' s
      in if \<not> fopen_generator_program env then fatal RC_FILE_ERROR s1
         else
           (let s2 = purple_log LOG_DEBUG ''Compiling generator program to LLVM using clang'' s1;
                s3 = purple_log LOG_DEBUG
                       (''Running clang with '' @ [CHR 0x22] @ ''%s'' @ [CHR 0x22]) s2;
                clang_status = pclose_status (clang_emit_llvm env);
                s4 = (if clang_status = - 1
                      then purple_log LOG_ERROR
                             ''clang failed with errno %d while compiling generator program'' s3
                      else if clang_status \<noteq> 0
                      then purple_log LOG_ERROR
                             ''clang exited with return code %d while compiling generator program''
                             s3
                      else s3)
            in Inr (s4\<lparr>generatorProgramWritten := True\<rparr>)))"

text \<open>
  \<^verbatim>\<open>regex_match\<close>: the text of group \<open>group_index\<close> of the first match, \<open>None\<close> for
  \<^verbatim>\<open>NULL\<close>. \<open>len\<close> is the size of the buffer only.
\<close>

definition regex_match ::
  "environment \<Rightarrow> string \<Rightarrow> string \<Rightarrow> nat \<Rightarrow> nat \<Rightarrow> globals \<Rightarrow> (string option \<times> globals) result"
where
  "regex_match env regex target_str len group_index s =
     (if \<not> regcomp env regex then fatal RC_COMPILER_ERROR s
      else case regexec env regex target_str of
             Some rm \<Rightarrow>
               (let (rm_so, rm_eo) = rm ! group_index
                in Inr (Some (take (rm_eo - rm_so) (drop rm_so target_str)), s))
           | None \<Rightarrow> Inr (None, s))"

definition datalayout_regex :: string where
  "datalayout_regex = ''target datalayout = '' @ [CHR 0x22] @ ''(.*)'' @ [CHR 0x22]"

text \<open>The \<^verbatim>\<open>while (fgets ...)\<close> loop of \<^verbatim>\<open>get_target_datalayout\<close>, left at the first match.\<close>

fun datalayout_while ::
  "environment \<Rightarrow> string list \<Rightarrow> globals \<Rightarrow> (string option \<times> globals) result"
where
  "datalayout_while env [] s = Inr (None, s)"
| "datalayout_while env (line # rest) s =
     (case regex_match env datalayout_regex line 1024 1 s of
        Inl abort \<Rightarrow> Inl abort
      | Inr (Some out, s') \<Rightarrow> Inr (Some out, s')
      | Inr (None, s') \<Rightarrow> datalayout_while env rest s')"

definition get_target_datalayout :: "environment \<Rightarrow> globals \<Rightarrow> (string \<times> globals) result" where
  "get_target_datalayout env s =
     (case (if \<not> generatorProgramWritten s then create_tmp_generator_program env s else Inr s) of
        Inl abort \<Rightarrow> Inl abort
      | Inr s1 \<Rightarrow>
          (let s2 = purple_log LOG_DEBUG ''Retrieving target datalayout'' s1
           in case fopen_generator_program_ll env of
                None \<Rightarrow> fatal RC_FILE_ERROR s2
              | Some lines \<Rightarrow>
                  (case datalayout_while env lines s2 of
                     Inl abort \<Rightarrow> Inl abort
                   | Inr (None, s3) \<Rightarrow> fatal RC_COMPILER_ERROR s3
                   | Inr (Some out, s3) \<Rightarrow> Inr (out, s3))))"

text \<open>
  \<^verbatim>\<open>get_target_triple\<close> reads one string from the pipe into the block of \<^verbatim>\<open>malloc(64)\<close>
  (which keeps its content when there is nothing to read) and strips a final newline.
\<close>

definition get_target_triple :: "environment \<Rightarrow> globals \<Rightarrow> (string \<times> globals) result" where
  "get_target_triple env s =
     (let s1 = purple_log LOG_DEBUG ''Retrieving target triple'' s;
          process_out = (case fgets_lines (clang_print_target_triple env) of
                           [] \<Rightarrow> malloc_64 env
                         | line # rest \<Rightarrow> line);
          clang_status = pclose_status (clang_print_target_triple env)
      in if clang_status = - 1 then fatal RC_ERROR s1
         else if clang_status \<noteq> 0 then fatal RC_ERROR s1
         else Inr (if process_out \<noteq> [] \<and> last process_out = CHR 0x0A
                   then butlast process_out else process_out, s1))"

section \<open>Preamble and postamble (src/translate/llvm.c)\<close>

fun fprintf_lines :: "string list \<Rightarrow> globals \<Rightarrow> globals" where
  "fprintf_lines [] s = s"
| "fprintf_lines (t # ts) s = fprintf_lines ts (fprintf (TEXT t) s)"

definition define_main :: string where
  "define_main = ''define dso_local i32 @main() #0 {''"

definition llvm_preamble :: "environment \<Rightarrow> globals \<Rightarrow> globals result" where
  "llvm_preamble env s =
     (let s1 = fprintf (TEXT (''; ModuleID = '' @ [CHR 0x27] @ D_INPUT_FN s @ [CHR 0x27])) s
      in case get_target_datalayout env s1 of
           Inl abort \<Rightarrow> Inl abort
         | Inr (target_datalayout, s2) \<Rightarrow>
             (let s3 = fprintf (TEXT (''target datalayout = '' @ [CHR 0x22] @ target_datalayout
                                        @ [CHR 0x22])) s2
              in case get_target_triple env s3 of
                   Inl abort \<Rightarrow> Inl abort
                 | Inr (target_triple, s4) \<Rightarrow>
                     Inr (fprintf_lines
                       [''target triple = '' @ [CHR 0x22] @ target_triple @ [CHR 0x22],
                        [],
                        ''@print_int_fstring = private unnamed_addr constant [4 x i8] c''
                          @ [CHR 0x22] @ ''%d'' @ [CHR 0x5C] @ ''0A'' @ [CHR 0x5C] @ ''00''
                          @ [CHR 0x22] @ '', align 1'',
                        [],
                        ''; Function Attrs: noinline nounwind optnone uwtable'',
                        define_main] s4)))"

definition quoted :: "string \<Rightarrow> string" where
  "quoted t = [CHR 0x22] @ t @ [CHR 0x22]"

definition llvm_postamble :: "formatting \<Rightarrow> globals \<Rightarrow> globals" where
  "llvm_postamble f s =
     fprintf_lines
       [TAB f @ ''ret i32 0'',
        ''}'',
        [],
        ''declare i32 @printf(i8*, ...) #1'',
        [],
        ''attributes #0 = { noinline nounwind optnone uwtable '' @ quoted ''frame-pointer''
          @ ''='' @ quoted ''all'' @ '' '' @ quoted ''min-legal-vector-width'' @ ''=''
          @ quoted ''0'' @ '' '' @ quoted ''no-trapping-math'' @ ''='' @ quoted ''true'' @ '' ''
          @ quoted ''stack-protector-buffer-size'' @ ''='' @ quoted ''8'' @ '' ''
          @ quoted ''target-cpu'' @ ''='' @ quoted ''x86-64'' @ '' ''
          @ quoted ''target-features'' @ ''='' @ quoted ''+cx8,+fxsr,+mmx,+sse,+sse2,+x87''
          @ '' '' @ quoted ''tune-cpu'' @ ''='' @ quoted ''generic'' @ '' }'',
        [],
        ''attributes #1 = { '' @ quoted ''frame-pointer'' @ ''='' @ quoted ''all'' @ '' ''
          @ quoted ''no-trapping-math'' @ ''='' @ quoted ''true'' @ '' ''
          @ quoted ''stack-protector-buffer-size'' @ ''='' @ quoted ''8'' @ '' ''
          @ quoted ''target-cpu'' @ ''='' @ quoted ''x86-64'' @ '' ''
          @ quoted ''target-features'' @ ''='' @ quoted ''+cx8,+fxsr,+mmx,+sse,+sse2,+x87''
          @ '' '' @ quoted ''tune-cpu'' @ ''='' @ quoted ''generic'' @ '' }'',
        [],
        ''!llvm.module.flags = !{!0, !1, !2, !3, !4}'',
        ''!llvm.ident = !{!5}'',
        [],
        ''!0 = !{i32 1, !'' @ quoted ''wchar_size'' @ '', i32 4}'',
        ''!1 = !{i32 7, !'' @ quoted ''PIC Level'' @ '', i32 2}'',
        ''!2 = !{i32 7, !'' @ quoted ''PIE Level'' @ '', i32 2}'',
        ''!3 = !{i32 7, !'' @ quoted ''uwtable'' @ '', i32 1}'',
        ''!4 = !{i32 7, !'' @ quoted ''frame-pointer'' @ '', i32 2}'',
        ''!5 = !{!'' @ quoted ''Ubuntu clang version 14.0.0-1ubuntu1'' @ ''}''] s"

section \<open>Sequences of calls\<close>

text \<open>\<open>n\<close> calls of \<^verbatim>\<open>get_next_local_virtual_register\<close> in a row, with the values returned.\<close>

fun get_next_n :: "nat \<Rightarrow> globals \<Rightarrow> type_register list \<times> globals" where
  "get_next_n 0 s = ([], s)"
| "get_next_n (Suc n) s =
     (let (r, s1) = get_next_local_virtual_register s;
          (rs, s2) = get_next_n n s1
      in (r # rs, s2))"

text \<open>
  A call of one of the four functions of llvm.c that print an instruction, with its
  arguments; \<open>emit_all\<close> makes the calls of a list in order and stops at the first one
  that aborts.
\<close>

datatype emitter_call =
    ENSURE_REGISTERS_LOADED "nat \<Rightarrow> bool" "type_register list"
  | BINARY_ARITHMETIC TokenType LLVMValue LLVMValue
  | STORE_CONSTANT Number
  | PRINT_INT type_register

fun emit :: "emitter_call \<Rightarrow> globals \<Rightarrow> globals result" where
  "emit (ENSURE_REGISTERS_LOADED stack registers) s =
     Inr (snd (llvm_ensure_registers_loaded stack registers s))"
| "emit (BINARY_ARITHMETIC operation left right) s =
     (case llvm_binary_arithmetic operation left right s of
        Inl abort \<Rightarrow> Inl abort
      | Inr (v, s') \<Rightarrow> Inr s')"
| "emit (STORE_CONSTANT v) s = Inr (snd (llvm_store_constant v s))"
| "emit (PRINT_INT print_vr) s = Inr (llvm_print_int print_vr s)"

fun emit_all :: "emitter_call list \<Rightarrow> globals \<Rightarrow> globals result" where
  "emit_all [] s = Inr s"
| "emit_all (c # cs) s =
     (case emit c s of
        Inl abort \<Rightarrow> Inl abort
      | Inr s' \<Rightarrow> emit_all cs s')"

text \<open>The global data that a run ends with, aborted or not.\<close>

fun final :: "globals result \<Rightarrow> globals" where
  "final (Inl (rc, s)) = s"
| "final (Inr s) = s"

text \<open>
  Modelled from the spec: \<^verbatim>\<open>generate_llvm\<close> is defined in translate/translate.c, which is
  not among the source files. "The whole pass is bracketed by preamble/postamble
  emission, and the stack-allocation pre-pass runs before any instruction-emitting call."
  The stack entries and the instruction-emitting calls, which the absent code derives from
  the syntax tree, are arguments.
\<close>

definition generate_llvm ::
  "formatting \<Rightarrow> environment \<Rightarrow> LLVMStackEntryNode list \<Rightarrow> emitter_call list \<Rightarrow> globals
     \<Rightarrow> globals result"
where
  "generate_llvm f env stack_entries calls s =
     (case llvm_preamble env s of
        Inl abort \<Rightarrow> Inl abort
      | Inr s1 \<Rightarrow>
          (case emit_all calls (llvm_stack_allocation stack_entries s1) of
             Inl abort \<Rightarrow> Inl abort
           | Inr s2 \<Rightarrow> Inr (llvm_postamble f s2)))"

definition is_alloca :: "ir_line \<Rightarrow> bool" where
  "is_alloca l = (case l of ALLOCA r t a \<Rightarrow> True | _ \<Rightarrow> False)"

section \<open>Example inputs\<close>

text \<open>
  Global data at the start of the function body: two stack slots \<^verbatim>\<open>%1\<close> and \<^verbatim>\<open>%2\<close> have
  been allocated, the next virtual register is 3.
\<close>

definition start :: globals where
  "start =
     \<lparr>D_LLVM_LOCAL_VIRTUAL_REGISTER_NUMBER = 3, loadedRegistersHead = [],
      freeVirtualRegistersHead = [], D_LLVM_FILE = [], D_INPUT_FN = ''main.prp'',
      generatorProgramWritten = False, purple_log_calls = []\<rparr>"

definition tab_newline :: formatting where
  "tab_newline = \<lparr>TAB = [CHR 0x09], NEWLINE = [CHR 0x0A], numberTypeLLVMReprs = (\<lambda>t. ''i32'')\<rparr>"

text \<open>The global data after the value of \<^verbatim>\<open>%1\<close> has been loaded once, into \<^verbatim>\<open>%3\<close>.\<close>

definition loaded_once :: globals where
  "loaded_once = snd (llvm_ensure_registers_loaded zeroed [1] start)"

text \<open>
  An environment in which the generator program cannot be compiled (clang exits with
  code 1, the status 256 of \<^verbatim>\<open>pclose\<close>) while an LLVM file of an earlier run is still in
  the temporary directory.
\<close>

definition datalayout_line :: string where
  "datalayout_line = ''target datalayout = '' @ [CHR 0x22] @ ''e-m:e'' @ [CHR 0x22, CHR 0x0A]"

definition stale_file :: environment where
  "stale_file =
     \<lparr>fopen_generator_program = True,
      clang_emit_llvm = \<lparr>fgets_lines = [], pclose_status = 256\<rparr>,
      fopen_generator_program_ll = Some [datalayout_line],
      clang_print_target_triple =
        \<lparr>fgets_lines = [''x86_64-pc-linux-gnu'' @ [CHR 0x0A]], pclose_status = 0\<rparr>,
      regcomp = (\<lambda>regex. True),
      regexec = (\<lambda>regex target_str.
                   if target_str = datalayout_line then Some [(0, 27), (21, 26)] else None),
      malloc_64 = []\<rparr>"

text \<open>The same environment with a clang that compiles the generator program.\<close>

definition working_clang :: environment where
  "working_clang = stale_file\<lparr>clang_emit_llvm := \<lparr>fgets_lines = [], pclose_status = 0\<rparr>\<rparr>"

text \<open>The stack entries and the calls of a pass over \<^verbatim>\<open>2 + 3\<close>.\<close>

definition two_entries :: "LLVMStackEntryNode list" where
  "two_entries =
     [\<lparr>reg = 1, node_type = NT_INT32, align_bytes = 4\<rparr>,
      \<lparr>reg = 2, node_type = NT_INT32, align_bytes = 4\<rparr>]"

definition two_plus_three :: "emitter_call list" where
  "two_plus_three =
     [STORE_CONSTANT (NUMBER_INT32 2),
      STORE_CONSTANT (NUMBER_INT32 3),
      ENSURE_REGISTERS_LOADED zeroed [1, 2],
      BINARY_ARITHMETIC T_PLUS (LLVMVALUE_VIRTUAL_REGISTER 3) (LLVMVALUE_VIRTUAL_REGISTER 4),
      PRINT_INT 5]"

section \<open>Lemmas\<close>

subsection \<open>Register numbers\<close>

lemma unat_plus_of_nat:
  "unat (c :: type_register) + k < 2 ^ 64 \<Longrightarrow> unat (c + of_nat k) = unat c + k"
  by (simp add: unat_word_ariths unat_of_nat take_bit_nat_eq_self)

lemma get_next_n_values:
  "fst (get_next_n n s) = map (\<lambda>k. D_LLVM_LOCAL_VIRTUAL_REGISTER_NUMBER s + of_nat k) [0..<n]"
proof (induction n arbitrary: s)
  case 0
  show ?case by simp
next
  case (Suc n)
  have "[0..<Suc n] = 0 # map Suc [0..<n]"
    by (simp add: upt_conv_Cons map_Suc_upt del: upt_Suc)
  then show ?case
    by (simp add: Suc get_next_local_virtual_register_def split_beta Let_def o_def add.assoc del: upt_Suc)
qed

lemma increasing_values:
  assumes "unat (c :: type_register) + n \<le> 2 ^ 64"
  shows "sorted_wrt (<) (map (\<lambda>k. c + of_nat k) [0..<n])"
proof -
  have "c + of_nat i < c + of_nat j" if "i < j" "j < n" for i j
  proof -
    have "unat (c + of_nat i) = unat c + i" "unat (c + of_nat j) = unat c + j"
      using assms that by (simp_all add: unat_plus_of_nat)
    with that show ?thesis by (simp add: word_less_nat_alt)
  qed
  then show ?thesis
    by (simp add: sorted_wrt_iff_nth_less)
qed

subsection \<open>The search of the loaded list\<close>

lemma search_for_Some:
  assumes "search_for cr regs i fr found = Some (fr', found')" "length fr = length regs"
  shows "length fr' = length fr \<and>
         (\<forall>j<length regs. fr' ! j = (if i \<le> j then fr ! j \<or> cr = regs ! j else fr ! j))"
  using assms
proof (induction cr regs i fr found arbitrary: fr' found' rule: search_for.induct)
  case (1 cr regs i fr found)
  show ?case
  proof (cases "i < length regs")
    case False
    with "1.prems" show ?thesis
      by (simp add: search_for.simps)
  next
    case True
    define hit where "hit = (\<not> fr ! i \<and> cr = regs ! i)"
    define fr1 where "fr1 = (if hit then fr[i := True] else fr)"
    define found1 where "found1 = (if hit then found + 1 else found)"
    from "1.prems"(1) True have ne: "found1 \<noteq> length regs"
      and rec: "search_for cr regs (i + 1) fr1 found1 = Some (fr', found')"
      by (auto simp: search_for.simps [of cr regs i] Let_def hit_def fr1_def found1_def split: if_splits)
    have len1: "length fr1 = length regs"
      using "1.prems"(2) by (simp add: fr1_def)
    from "1.IH" [OF True hit_def fr1_def found1_def ne rec len1]
    have IH: "length fr' = length fr1"
      "\<And>j. j < length regs \<Longrightarrow> fr' ! j = (if i + 1 \<le> j then fr1 ! j \<or> cr = regs ! j else fr1 ! j)"
      by simp_all
    have "fr' ! j = (if i \<le> j then fr ! j \<or> cr = regs ! j else fr ! j)" if "j < length regs" for j
      using IH(2) [OF that] that "1.prems"(2) True
      by (cases "j = i") (auto simp: fr1_def hit_def)
    with IH(1) len1 "1.prems"(2) show ?thesis by simp
  qed
qed

lemma count_update_True:
  "i < length fr \<Longrightarrow> \<not> fr ! i \<Longrightarrow> length (filter (\<lambda>b. b) (fr[i := True])) = Suc (length (filter (\<lambda>b. b) fr))"
proof (induction fr arbitrary: i)
  case Nil
  then show ?case by simp
next
  case (Cons b fr)
  then show ?case by (cases i) simp_all
qed

lemma count_full: "length (filter (\<lambda>b. b) fr) = length fr \<longleftrightarrow> (\<forall>j<length fr. fr ! j)"
  by (metis filter_True in_set_conv_nth length_filter_less nat_neq_iff)

text \<open>Unfolding one iteration of the search loop.\<close>

lemma search_for_step:
  "i < length regs \<Longrightarrow>
   search_for cr regs i fr found =
     (if \<not> fr ! i \<and> cr = regs ! i
      then (if Suc found = length regs then None
            else search_for cr regs (Suc i) (fr[i := True]) (Suc found))
      else (if found = length regs then None else search_for cr regs (Suc i) fr found))"
  by (simp add: search_for.simps [of cr regs i] Let_def)

lemma search_for_done:
  "\<not> i < length regs \<Longrightarrow> search_for cr regs i fr found = Some (fr, found)"
  by (simp add: search_for.simps [of cr regs i])

lemma search_for_count:
  assumes "search_for cr regs i fr found = Some (fr', found')" "length fr = length regs"
    "found = length (filter (\<lambda>b. b) fr)"
  shows "found' = length (filter (\<lambda>b. b) fr')"
  using assms
proof (induction cr regs i fr found arbitrary: fr' found' rule: search_for.induct)
  case (1 cr regs i fr found)
  show ?case
  proof (cases "i < length regs")
    case False
    with "1.prems" show ?thesis by (auto simp: search_for_done)
  next
    case True
    define hit where "hit = (\<not> fr ! i \<and> cr = regs ! i)"
    define fr1 where "fr1 = (if hit then fr[i := True] else fr)"
    define found1 where "found1 = (if hit then found + 1 else found)"
    from "1.prems"(1) True have ne: "found1 \<noteq> length regs"
      and rec: "search_for cr regs (i + 1) fr1 found1 = Some (fr', found')"
      by (auto simp: search_for_step hit_def fr1_def found1_def split: if_splits)
    have len1: "length fr1 = length regs"
      using "1.prems"(2) by (simp add: fr1_def)
    have cnt1: "found1 = length (filter (\<lambda>b. b) fr1)"
      using "1.prems"(2,3) True by (simp add: fr1_def found1_def hit_def count_update_True)
    from "1.IH" [OF True hit_def fr1_def found1_def ne rec len1 cnt1] show ?thesis .
  qed
qed

lemma search_for_not_full:
  assumes "search_for cr regs i fr found = Some (fr', found')" "i < length regs"
  shows "found' \<noteq> length regs"
  using assms
proof (induction cr regs i fr found arbitrary: fr' found' rule: search_for.induct)
  case (1 cr regs i fr found)
  define hit where "hit = (\<not> fr ! i \<and> cr = regs ! i)"
  define fr1 where "fr1 = (if hit then fr[i := True] else fr)"
  define found1 where "found1 = (if hit then found + 1 else found)"
  from "1.prems" have ne: "found1 \<noteq> length regs"
    and rec: "search_for cr regs (i + 1) fr1 found1 = Some (fr', found')"
    by (auto simp: search_for_step hit_def fr1_def found1_def split: if_splits)
  show ?case
  proof (cases "i + 1 < length regs")
    case True
    from "1.IH" [OF "1.prems"(2) hit_def fr1_def found1_def ne rec True] show ?thesis .
  next
    case False
    with rec ne show ?thesis by (simp add: search_for_done)
  qed
qed

lemma search_for_None:
  assumes "search_for cr regs i fr found = None" "length fr = length regs"
    "found = length (filter (\<lambda>b. b) fr)"
  shows "\<forall>j<length regs. fr ! j \<or> (i \<le> j \<and> cr = regs ! j)"
  using assms
proof (induction cr regs i fr found rule: search_for.induct)
  case (1 cr regs i fr found)
  from "1.prems"(1) have True: "i < length regs"
    by (auto simp: search_for.simps [of cr regs i] split: if_splits)
  define hit where "hit = (\<not> fr ! i \<and> cr = regs ! i)"
  define fr1 where "fr1 = (if hit then fr[i := True] else fr)"
  define found1 where "found1 = (if hit then found + 1 else found)"
  have len1: "length fr1 = length regs"
    using "1.prems"(2) by (simp add: fr1_def)
  have cnt1: "found1 = length (filter (\<lambda>b. b) fr1)"
    using "1.prems"(2,3) True by (simp add: fr1_def found1_def hit_def count_update_True)
  have fr1: "fr1 ! j \<longrightarrow> fr ! j \<or> (j = i \<and> cr = regs ! j)" if "j < length regs" for j
    using that "1.prems"(2) by (cases "j = i") (auto simp: fr1_def hit_def)
  show ?case
  proof (cases "found1 = length regs")
    case full: True
    then have "\<forall>j<length fr1. fr1 ! j"
      using cnt1 len1 count_full [of fr1] by simp
    with fr1 len1 show ?thesis by auto
  next
    case False
    with "1.prems"(1) True have rec: "search_for cr regs (i + 1) fr1 found1 = None"
      by (auto simp: search_for_step hit_def fr1_def found1_def split: if_splits)
    from "1.IH" [OF True hit_def fr1_def found1_def False rec len1 cnt1]
    have "\<forall>j<length regs. fr1 ! j \<or> (i + 1 \<le> j \<and> cr = regs ! j)" .
    with fr1 show ?thesis by fastforce
  qed
qed

text \<open>The whole search.\<close>

lemma search_while_Some:
  assumes "search_while cache regs fr found = Some (fr', found')" "length fr = length regs"
  shows "length fr' = length regs \<and> (\<forall>j<length regs. fr' ! j = (fr ! j \<or> regs ! j \<in> set cache))"
  using assms
proof (induction cache arbitrary: fr found)
  case Nil
  then show ?case by simp
next
  case (Cons cr cache)
  from Cons.prems(1) obtain fr1 found1 where
    one: "search_for cr regs 0 fr found = Some (fr1, found1)"
    and rest: "search_while cache regs fr1 found1 = Some (fr', found')"
    by (auto split: option.splits)
  from search_for_Some [OF one Cons.prems(2)]
  have len1: "length fr1 = length regs" and fr1: "\<forall>j<length regs. fr1 ! j = (fr ! j \<or> cr = regs ! j)"
    using Cons.prems(2) by simp_all
  from Cons.IH [OF rest len1] fr1 show ?case by auto
qed

lemma search_while_None:
  assumes "search_while cache regs fr found = None" "length fr = length regs"
    "found = length (filter (\<lambda>b. b) fr)"
  shows "regs \<noteq> [] \<and> (\<forall>j<length regs. fr ! j \<or> regs ! j \<in> set cache)"
  using assms
proof (induction cache arbitrary: fr found)
  case Nil
  then show ?case by simp
next
  case (Cons cr cache)
  show ?case
  proof (cases "search_for cr regs 0 fr found")
    case None
    from search_for_None [OF None Cons.prems(2,3)] None show ?thesis
      by (auto simp: search_for_done)
  next
    case (Some p)
    obtain fr1 found1 where p: "p = (fr1, found1)" by (cases p)
    from Some p Cons.prems(1) have rest: "search_while cache regs fr1 found1 = None" by simp
    from search_for_Some [OF Some [unfolded p] Cons.prems(2)]
    have len1: "length fr1 = length regs" and fr1: "\<forall>j<length regs. fr1 ! j = (fr ! j \<or> cr = regs ! j)"
      using Cons.prems(2) by simp_all
    from search_for_count [OF Some [unfolded p] Cons.prems(2,3)]
    have cnt1: "found1 = length (filter (\<lambda>b. b) fr1)" .
    from Cons.IH [OF rest len1 cnt1] fr1 show ?thesis by auto
  qed
qed

lemma search_while_all_found:
  assumes "\<forall>j<length regs. fr ! j \<or> regs ! j \<in> set cache" "regs \<noteq> []" "cache \<noteq> []"
    "length fr = length regs" "found = length (filter (\<lambda>b. b) fr)"
  shows "search_while cache regs fr found = None"
  using assms
proof (induction cache arbitrary: fr found)
  case Nil
  then show ?case by simp
next
  case (Cons cr cache)
  show ?case
  proof (cases "search_for cr regs 0 fr found")
    case None
    then show ?thesis by simp
  next
    case (Some p)
    obtain fr1 found1 where p: "p = (fr1, found1)" by (cases p)
    from search_for_Some [OF Some [unfolded p] Cons.prems(4)]
    have len1: "length fr1 = length regs" and fr1: "\<forall>j<length regs. fr1 ! j = (fr ! j \<or> cr = regs ! j)"
      using Cons.prems(4) by simp_all
    from search_for_count [OF Some [unfolded p] Cons.prems(4,5)]
    have cnt1: "found1 = length (filter (\<lambda>b. b) fr1)" .
    from search_for_not_full [OF Some [unfolded p]] Cons.prems(2)
    have nf: "found1 \<noteq> length regs" by simp
    have all1: "\<forall>j<length regs. fr1 ! j \<or> regs ! j \<in> set cache"
      using Cons.prems(1) fr1 by auto
    have "cache \<noteq> []"
    proof
      assume "cache = []"
      with all1 len1 have "\<forall>j<length fr1. fr1 ! j" by simp
      then have "length (filter (\<lambda>b. b) fr1) = length fr1" by (simp add: count_full)
      with cnt1 len1 nf show False by simp
    qed
    from Cons.IH [OF all1 Cons.prems(2) this len1 cnt1] Some p show ?thesis by simp
  qed
qed

lemma zeroed_flags: "map zeroed [0..<n] = replicate n False"
  by (simp add: list_eq_iff_nth_eq zeroed_def)

lemma search_zeroed_None:
  "search_while cache regs (map zeroed [0..<length regs]) 0 = None \<longleftrightarrow>
     regs \<noteq> [] \<and> set regs \<subseteq> set cache"
proof
  assume "search_while cache regs (map zeroed [0..<length regs]) 0 = None"
  from search_while_None [OF this] show "regs \<noteq> [] \<and> set regs \<subseteq> set cache"
    by (auto simp: zeroed_flags in_set_conv_nth)
next
  assume a: "regs \<noteq> [] \<and> set regs \<subseteq> set cache"
  then have "cache \<noteq> []" by (cases regs) auto
  with a show "search_while cache regs (map zeroed [0..<length regs]) 0 = None"
    by (intro search_while_all_found) (auto simp: zeroed_flags)
qed

lemma search_zeroed_Some:
  assumes "search_while cache regs (map zeroed [0..<length regs]) 0 = Some (fr', found')"
  shows "fr' = map (\<lambda>r. r \<in> set cache) regs"
proof -
  from search_while_Some [OF assms]
  have "length fr' = length regs" "\<forall>j<length regs. fr' ! j = (regs ! j \<in> set cache)"
    by (simp_all add: zeroed_flags)
  then show ?thesis by (simp add: list_eq_iff_nth_eq)
qed

subsection \<open>The loads\<close>

lemma prepend_loaded_eq:
  "prepend_loaded r s = s\<lparr>loadedRegistersHead := r # loadedRegistersHead s\<rparr>"
  by (simp add: prepend_loaded_def)

lemma load_for_step:
  "i < length regs \<Longrightarrow>
   load_for regs fr i acc s =
     (if \<not> fr ! i
      then load_for regs fr (Suc i) (acc[i := D_LLVM_LOCAL_VIRTUAL_REGISTER_NUMBER s])
             (s\<lparr>D_LLVM_LOCAL_VIRTUAL_REGISTER_NUMBER := D_LLVM_LOCAL_VIRTUAL_REGISTER_NUMBER s + 1,
                D_LLVM_FILE := D_LLVM_FILE s @ [LOAD (D_LLVM_LOCAL_VIRTUAL_REGISTER_NUMBER s) (regs ! i)],
                loadedRegistersHead := D_LLVM_LOCAL_VIRTUAL_REGISTER_NUMBER s # loadedRegistersHead s\<rparr>)
      else load_for regs fr (Suc i) (acc[i := regs ! i]) s)"
  by (simp add: load_for.simps [of regs fr i] get_next_local_virtual_register_def fprintf_def
      prepend_loaded_eq Let_def)

lemma load_for_done:
  "\<not> i < length regs \<Longrightarrow> load_for regs fr i acc s = (acc, s)"
  by (simp add: load_for.simps [of regs fr i])

lemma upt_shift: "map f [0..<Suc m] = f 0 # map (\<lambda>k. f (Suc k)) [0..<m]"
proof -
  have "[0..<Suc m] = 0 # map Suc [0..<m]"
    by (simp add: upt_conv_Cons map_Suc_upt del: upt_Suc)
  then show ?thesis by (simp add: o_def del: upt_Suc)
qed

lemma load_for_spec:
  assumes "load_for regs fr i acc s = (out, s')" "length acc = length regs" "i \<le> length regs"
  defines "M \<equiv> filter (\<lambda>j. \<not> fr ! j) [i..<length regs]"
  shows "length out = length regs \<and>
         (\<forall>j<i. out ! j = acc ! j) \<and>
         (\<forall>j. i \<le> j \<and> j < length regs \<and> fr ! j \<longrightarrow> out ! j = regs ! j) \<and>
         map (\<lambda>j. out ! j) M =
           map (\<lambda>k. D_LLVM_LOCAL_VIRTUAL_REGISTER_NUMBER s + of_nat k) [0..<length M] \<and>
         s' = s\<lparr>D_LLVM_LOCAL_VIRTUAL_REGISTER_NUMBER :=
                   D_LLVM_LOCAL_VIRTUAL_REGISTER_NUMBER s + of_nat (length M),
                 D_LLVM_FILE := D_LLVM_FILE s @ map (\<lambda>j. LOAD (out ! j) (regs ! j)) M,
                 loadedRegistersHead := rev (map (\<lambda>j. out ! j) M) @ loadedRegistersHead s\<rparr>"
  using assms(1-3) unfolding M_def
proof (induction regs fr i acc s arbitrary: out s' rule: load_for.induct)
  case (1 regs fr i acc s)
  let ?c = "D_LLVM_LOCAL_VIRTUAL_REGISTER_NUMBER s"
  show ?case
  proof (cases "i < length regs")
    case False
    with "1.prems" show ?thesis by (auto simp: load_for_done)
  next
    case True
    then have upt: "[i..<length regs] = i # [Suc i..<length regs]"
      by (simp add: upt_conv_Cons)
    let ?M' = "filter (\<lambda>j. \<not> fr ! j) [Suc i..<length regs]"
    show ?thesis
    proof (cases "fr ! i")
      case found: True
      with "1.prems"(1) True
      have rec: "load_for regs fr (i + 1) (acc[i := regs ! i]) s = (out, s')"
        by (simp add: load_for_step)
      have "length (acc[i := regs ! i]) = length regs" "i + 1 \<le> length regs"
        using "1.prems"(2) True by simp_all
      from "1.IH"(2) [OF True _ rec this] found
      have IH: "length out = length regs"
        "\<forall>j<Suc i. out ! j = acc[i := regs ! i] ! j"
        "\<forall>j. Suc i \<le> j \<and> j < length regs \<and> fr ! j \<longrightarrow> out ! j = regs ! j"
        "map (\<lambda>j. out ! j) ?M' = map (\<lambda>k. ?c + of_nat k) [0..<length ?M']"
        "s' = s\<lparr>D_LLVM_LOCAL_VIRTUAL_REGISTER_NUMBER := ?c + of_nat (length ?M'),
                 D_LLVM_FILE := D_LLVM_FILE s @ map (\<lambda>j. LOAD (out ! j) (regs ! j)) ?M',
                 loadedRegistersHead := rev (map (\<lambda>j. out ! j) ?M') @ loadedRegistersHead s\<rparr>"
        by simp_all
      have at_i: "out ! i = regs ! i"
        using IH(2) "1.prems"(2) True by simp
      have before: "\<forall>j<i. out ! j = acc ! j"
        using IH(2) by (auto simp: nth_list_update)
      have after: "\<forall>j. i \<le> j \<and> j < length regs \<and> fr ! j \<longrightarrow> out ! j = regs ! j"
        using IH(3) at_i by (metis Suc_leI le_neq_implies_less)
      show ?thesis
        using IH(1,4,5) before after found by (simp add: upt)
    next
      case missing: False
      let ?s3 = "s\<lparr>D_LLVM_LOCAL_VIRTUAL_REGISTER_NUMBER := ?c + 1,
                D_LLVM_FILE := D_LLVM_FILE s @ [LOAD ?c (regs ! i)],
                loadedRegistersHead := ?c # loadedRegistersHead s\<rparr>"
      from missing "1.prems"(1) True
      have rec: "load_for regs fr (i + 1) (acc[i := ?c]) ?s3 = (out, s')"
        by (simp add: load_for_step)
      have "length (acc[i := ?c]) = length regs" "i + 1 \<le> length regs"
        using "1.prems"(2) True by simp_all
      from "1.IH"(1) [OF True missing _ _ _ _ rec this]
      have IH: "length out = length regs"
        "\<forall>j<Suc i. out ! j = acc[i := ?c] ! j"
        "\<forall>j. Suc i \<le> j \<and> j < length regs \<and> fr ! j \<longrightarrow> out ! j = regs ! j"
        "map (\<lambda>j. out ! j) ?M' = map (\<lambda>k. ?c + 1 + of_nat k) [0..<length ?M']"
        "s' = ?s3\<lparr>D_LLVM_LOCAL_VIRTUAL_REGISTER_NUMBER := ?c + 1 + of_nat (length ?M'),
                 D_LLVM_FILE := D_LLVM_FILE ?s3 @ map (\<lambda>j. LOAD (out ! j) (regs ! j)) ?M',
                 loadedRegistersHead := rev (map (\<lambda>j. out ! j) ?M') @ loadedRegistersHead ?s3\<rparr>"
        by (simp_all add: get_next_local_virtual_register_def fprintf_def prepend_loaded_def)
      have at_i: "out ! i = ?c"
        using IH(2) "1.prems"(2) True by simp
      have before: "\<forall>j<i. out ! j = acc ! j"
        using IH(2) by (auto simp: nth_list_update)
      have after: "\<forall>j. i \<le> j \<and> j < length regs \<and> fr ! j \<longrightarrow> out ! j = regs ! j"
        using IH(3) missing by (metis Suc_leI le_neq_implies_less)
      show ?thesis
        using IH(1,4,5) before after missing at_i
        by (simp add: upt upt_shift add.assoc del: upt_Suc)
    qed
  qed
qed

subsection \<open>One call of llvm_ensure_registers_loaded\<close>

lemma ensure_loaded_NULL:
  assumes "search_while (loadedRegistersHead s) regs (map stack [0..<length regs]) 0 = None"
  shows "llvm_ensure_registers_loaded stack regs s = (None, s)"
  using assms by (simp add: llvm_ensure_registers_loaded_def)

lemma ensure_loaded_list:
  assumes "search_while (loadedRegistersHead s) regs (map stack [0..<length regs]) 0 =
             Some (fr, found)"
  defines "M \<equiv> filter (\<lambda>j. \<not> fr ! j) [0..<length regs]"
  shows "\<exists>out. llvm_ensure_registers_loaded stack regs s =
           (Some out,
            s\<lparr>D_LLVM_LOCAL_VIRTUAL_REGISTER_NUMBER :=
                 D_LLVM_LOCAL_VIRTUAL_REGISTER_NUMBER s + of_nat (length M),
               D_LLVM_FILE := D_LLVM_FILE s @ map (\<lambda>j. LOAD (out ! j) (regs ! j)) M,
               loadedRegistersHead := rev (map (\<lambda>j. out ! j) M) @ loadedRegistersHead s\<rparr>) \<and>
         length out = length regs \<and>
         (\<forall>j<length regs. fr ! j \<longrightarrow> out ! j = regs ! j) \<and>
         map (\<lambda>j. out ! j) M =
           map (\<lambda>k. D_LLVM_LOCAL_VIRTUAL_REGISTER_NUMBER s + of_nat k) [0..<length M]"
proof -
  obtain out s' where run: "load_for regs fr 0 (replicate (length regs) 0) s = (out, s')"
    by (cases "load_for regs fr 0 (replicate (length regs) 0) s")
  from load_for_spec [OF run] have
    "length out = length regs"
    "\<forall>j. j < length regs \<and> fr ! j \<longrightarrow> out ! j = regs ! j"
    "map (\<lambda>j. out ! j) M =
       map (\<lambda>k. D_LLVM_LOCAL_VIRTUAL_REGISTER_NUMBER s + of_nat k) [0..<length M]"
    "s' = s\<lparr>D_LLVM_LOCAL_VIRTUAL_REGISTER_NUMBER :=
               D_LLVM_LOCAL_VIRTUAL_REGISTER_NUMBER s + of_nat (length M),
             D_LLVM_FILE := D_LLVM_FILE s @ map (\<lambda>j. LOAD (out ! j) (regs ! j)) M,
             loadedRegistersHead := rev (map (\<lambda>j. out ! j) M) @ loadedRegistersHead s\<rparr>"
    by (simp_all add: M_def)
  moreover have "llvm_ensure_registers_loaded stack regs s = (Some out, s')"
    using assms(1) run by (simp add: llvm_ensure_registers_loaded_def)
  ultimately show ?thesis by auto
qed

text \<open>
  Whatever the stack holds: the lines that a call prints are loads from registers of its
  argument that are not in the loaded list, at most one for each position, and the
  loaded list is extended at its head.
\<close>

lemma ensure_loaded_any_stack:
  "\<exists>new fresh.
     D_LLVM_FILE (snd (llvm_ensure_registers_loaded stack regs s)) = D_LLVM_FILE s @ new \<and>
     loadedRegistersHead (snd (llvm_ensure_registers_loaded stack regs s)) =
       fresh @ loadedRegistersHead s \<and>
     length new \<le> length regs \<and>
     (\<forall>l\<in>set new. \<exists>d a. l = LOAD d a \<and> a \<in> set regs \<and> a \<notin> set (loadedRegistersHead s))"
proof (cases "search_while (loadedRegistersHead s) regs (map stack [0..<length regs]) 0")
  case None
  then show ?thesis by (simp add: ensure_loaded_NULL)
next
  case (Some p)
  obtain fr found where p: "p = (fr, found)" by (cases p)
  let ?M = "filter (\<lambda>j. \<not> fr ! j) [0..<length regs]"
  from ensure_loaded_list [OF Some [unfolded p]] obtain out where
    "llvm_ensure_registers_loaded stack regs s =
       (Some out,
        s\<lparr>D_LLVM_LOCAL_VIRTUAL_REGISTER_NUMBER :=
             D_LLVM_LOCAL_VIRTUAL_REGISTER_NUMBER s + of_nat (length ?M),
           D_LLVM_FILE := D_LLVM_FILE s @ map (\<lambda>j. LOAD (out ! j) (regs ! j)) ?M,
           loadedRegistersHead := rev (map (\<lambda>j. out ! j) ?M) @ loadedRegistersHead s\<rparr>)"
    by blast
  then have out: "snd (llvm_ensure_registers_loaded stack regs s) =
            s\<lparr>D_LLVM_LOCAL_VIRTUAL_REGISTER_NUMBER :=
                 D_LLVM_LOCAL_VIRTUAL_REGISTER_NUMBER s + of_nat (length ?M),
               D_LLVM_FILE := D_LLVM_FILE s @ map (\<lambda>j. LOAD (out ! j) (regs ! j)) ?M,
               loadedRegistersHead := rev (map (\<lambda>j. out ! j) ?M) @ loadedRegistersHead s\<rparr>"
    by simp
  from search_while_Some [OF Some [unfolded p]]
  have flags: "\<forall>j<length regs. fr ! j = (stack j \<or> regs ! j \<in> set (loadedRegistersHead s))"
    by simp
  have "length ?M \<le> length regs"
    using length_filter_le [of "\<lambda>j. \<not> fr ! j" "[0..<length regs]"] by simp
  moreover have "\<forall>l\<in>set (map (\<lambda>j. LOAD (out ! j) (regs ! j)) ?M).
      \<exists>d a. l = LOAD d a \<and> a \<in> set regs \<and> a \<notin> set (loadedRegistersHead s)"
    using flags by auto
  ultimately show ?thesis
    unfolding out by (intro exI [of _ "map (\<lambda>j. LOAD (out ! j) (regs ! j)) ?M"]
        exI [of _ "rev (map (\<lambda>j. out ! j) ?M)"]) simp
qed

subsection \<open>Calls and sequences of calls\<close>

lemma binary_arithmetic_cases:
  "llvm_binary_arithmetic operation left right s =
     (if operation \<in> {T_PLUS, T_MINUS, T_STAR, T_SLASH}
      then Inr (LLVMVALUE_VIRTUAL_REGISTER (D_LLVM_LOCAL_VIRTUAL_REGISTER_NUMBER s),
                s\<lparr>D_LLVM_LOCAL_VIRTUAL_REGISTER_NUMBER := D_LLVM_LOCAL_VIRTUAL_REGISTER_NUMBER s + 1,
                  D_LLVM_FILE := D_LLVM_FILE s @
                    [(case operation of T_PLUS \<Rightarrow> ADD | T_MINUS \<Rightarrow> SUB | T_STAR \<Rightarrow> MUL | _ \<Rightarrow> UDIV)
                       (D_LLVM_LOCAL_VIRTUAL_REGISTER_NUMBER s) (virtual_register_index left)
                       (virtual_register_index right)],
                  loadedRegistersHead :=
                    D_LLVM_LOCAL_VIRTUAL_REGISTER_NUMBER s # loadedRegistersHead s\<rparr>)
      else Inl (RC_COMPILER_ERROR, s))"
  by (cases operation)
    (simp_all add: llvm_binary_arithmetic_def llvm_add_def llvm_subtract_def llvm_multiply_def
      llvm_divide_def get_next_local_virtual_register_def fprintf_def prepend_loaded_eq fatal_def)

lemma store_constant_cases:
  "llvm_store_constant v s =
    (case freeVirtualRegistersHead s of
       r # rest \<Rightarrow>
         (LLVMVALUE_VIRTUAL_REGISTER_POINTER r,
          s\<lparr>freeVirtualRegistersHead := rest,
            D_LLVM_FILE := D_LLVM_FILE s @
              [STORE (type v) (numberTypeFormatStrings (type v)) (int_value v) r
                 (numberTypeByteSizes (type v))]\<rparr>)
     | [] \<Rightarrow>
         (LLVMVALUE_VIRTUAL_REGISTER_POINTER (D_LLVM_LOCAL_VIRTUAL_REGISTER_NUMBER s),
          s\<lparr>D_LLVM_LOCAL_VIRTUAL_REGISTER_NUMBER := D_LLVM_LOCAL_VIRTUAL_REGISTER_NUMBER s + 1,
            D_LLVM_FILE := D_LLVM_FILE s @
              [STORE (type v) (numberTypeFormatStrings (type v)) (int_value v)
                 (D_LLVM_LOCAL_VIRTUAL_REGISTER_NUMBER s) (numberTypeByteSizes (type v))]\<rparr>))"
  by (simp add: llvm_store_constant_def pop_stack_entry_linked_list_def
      get_next_local_virtual_register_def fprintf_def split: list.splits)

lemma print_int_eq:
  "llvm_print_int print_vr s =
     s\<lparr>D_LLVM_LOCAL_VIRTUAL_REGISTER_NUMBER := D_LLVM_LOCAL_VIRTUAL_REGISTER_NUMBER s + 1,
       D_LLVM_FILE := D_LLVM_FILE s @ [CALL_PRINTF print_vr]\<rparr>"
  by (simp add: llvm_print_int_def get_next_local_virtual_register_def fprintf_def)

text \<open>
  What one call does to the file and to the loaded list: it appends lines, none of them an
  allocation and none a load from a register of the loaded list, and it puts registers
  in front of the loaded list.
\<close>

lemma emit_appends:
  "\<exists>new fresh.
     D_LLVM_FILE (final (emit c s)) = D_LLVM_FILE s @ new \<and>
     loadedRegistersHead (final (emit c s)) = fresh @ loadedRegistersHead s \<and>
     (\<forall>l\<in>set new. \<not> is_alloca l) \<and>
     (\<forall>l\<in>set new. \<forall>d a. l = LOAD d a \<longrightarrow> a \<notin> set (loadedRegistersHead s))"
proof (cases c)
  case (ENSURE_REGISTERS_LOADED stack regs)
  from ensure_loaded_any_stack [of stack regs s] obtain new fresh where
    "D_LLVM_FILE (snd (llvm_ensure_registers_loaded stack regs s)) = D_LLVM_FILE s @ new"
    "loadedRegistersHead (snd (llvm_ensure_registers_loaded stack regs s)) =
       fresh @ loadedRegistersHead s"
    "\<forall>l\<in>set new. \<exists>d a. l = LOAD d a \<and> a \<in> set regs \<and> a \<notin> set (loadedRegistersHead s)"
    by blast
  then show ?thesis
    unfolding ENSURE_REGISTERS_LOADED
    by (intro exI [of _ new] exI [of _ fresh]) (auto simp: is_alloca_def)
next
  case (BINARY_ARITHMETIC operation left right)
  show ?thesis
  proof (cases "operation \<in> {T_PLUS, T_MINUS, T_STAR, T_SLASH}")
    case True
    then show ?thesis
      unfolding BINARY_ARITHMETIC
      by (auto simp: binary_arithmetic_cases is_alloca_def)
  next
    case False
    then show ?thesis
      unfolding BINARY_ARITHMETIC by (simp add: binary_arithmetic_cases)
  qed
next
  case (STORE_CONSTANT v)
  then show ?thesis
    by (cases "freeVirtualRegistersHead s") (simp_all add: store_constant_cases is_alloca_def)
next
  case (PRINT_INT print_vr)
  then show ?thesis
    by (simp add: print_int_eq is_alloca_def)
qed

lemma emit_all_appends:
  "\<exists>new fresh.
     D_LLVM_FILE (final (emit_all cs s)) = D_LLVM_FILE s @ new \<and>
     loadedRegistersHead (final (emit_all cs s)) = fresh @ loadedRegistersHead s \<and>
     (\<forall>l\<in>set new. \<not> is_alloca l) \<and>
     (\<forall>l\<in>set new. \<forall>d a. l = LOAD d a \<longrightarrow> a \<notin> set (loadedRegistersHead s))"
proof (induction cs arbitrary: s)
  case Nil
  show ?case by simp
next
  case (Cons c cs)
  from emit_appends [of c s] obtain new1 fresh1 where one:
    "D_LLVM_FILE (final (emit c s)) = D_LLVM_FILE s @ new1"
    "loadedRegistersHead (final (emit c s)) = fresh1 @ loadedRegistersHead s"
    "\<forall>l\<in>set new1. \<not> is_alloca l"
    "\<forall>l\<in>set new1. \<forall>d a. l = LOAD d a \<longrightarrow> a \<notin> set (loadedRegistersHead s)"
    by blast
  show ?case
  proof (cases "emit c s")
    case (Inl abort)
    with one show ?thesis
      by (intro exI [of _ new1] exI [of _ fresh1]) simp
  next
    case (Inr s1)
    from Cons.IH [of s1] obtain new2 fresh2 where rest:
      "D_LLVM_FILE (final (emit_all cs s1)) = D_LLVM_FILE s1 @ new2"
      "loadedRegistersHead (final (emit_all cs s1)) = fresh2 @ loadedRegistersHead s1"
      "\<forall>l\<in>set new2. \<not> is_alloca l"
      "\<forall>l\<in>set new2. \<forall>d a. l = LOAD d a \<longrightarrow> a \<notin> set (loadedRegistersHead s1)"
      by blast
    from one Inr have s1: "D_LLVM_FILE s1 = D_LLVM_FILE s @ new1"
      "loadedRegistersHead s1 = fresh1 @ loadedRegistersHead s"
      by simp_all
    show ?thesis
      using Inr one(3,4) rest s1
      by (intro exI [of _ "new1 @ new2"] exI [of _ "fresh2 @ fresh1"]) auto
  qed
qed

subsection \<open>Preamble, stack allocation, postamble\<close>

lemma stack_allocation_eq:
  "llvm_stack_allocation entries s =
     s\<lparr>D_LLVM_FILE :=
         D_LLVM_FILE s @ map (\<lambda>e. ALLOCA (reg e) (node_type e) (align_bytes e)) entries\<rparr>"
  by (induction entries arbitrary: s) (simp_all add: fprintf_def)

lemma fprintf_lines_eq:
  "fprintf_lines ts s = s\<lparr>D_LLVM_FILE := D_LLVM_FILE s @ map TEXT ts\<rparr>"
  by (induction ts arbitrary: s) (simp_all add: fprintf_def)

lemma regex_match_state:
  "regex_match env regex target_str len group_index s = Inr (out, s') \<Longrightarrow> s' = s"
  by (auto simp: regex_match_def fatal_def split: if_splits option.splits prod.splits)

lemma datalayout_while_state:
  "datalayout_while env lines s = Inr (out, s') \<Longrightarrow> s' = s"
proof (induction lines arbitrary: s)
  case Nil
  then show ?case by simp
next
  case (Cons line lines)
  then show ?case
    by (auto split: sum.splits option.splits dest: regex_match_state)
qed

lemma create_tmp_file:
  "create_tmp_generator_program env s = Inr s' \<Longrightarrow> D_LLVM_FILE s' = D_LLVM_FILE s"
  by (auto simp: create_tmp_generator_program_def purple_log_def fatal_def Let_def
      split: if_splits)

lemma get_target_datalayout_file:
  assumes "get_target_datalayout env s = Inr (out, s')"
  shows "D_LLVM_FILE s' = D_LLVM_FILE s"
proof -
  from assms obtain s1 lines where
    s1: "(if \<not> generatorProgramWritten s then create_tmp_generator_program env s else Inr s)
           = Inr s1"
    and loop: "datalayout_while env lines (purple_log LOG_DEBUG ''Retrieving target datalayout'' s1)
           = Inr (Some out, s')"
    by (auto simp: get_target_datalayout_def fatal_def Let_def
        split: sum.splits option.splits prod.splits)
  from s1 have "D_LLVM_FILE s1 = D_LLVM_FILE s"
    by (auto split: if_splits dest: create_tmp_file)
  with datalayout_while_state [OF loop] show ?thesis
    by (simp add: purple_log_def)
qed

lemma get_target_triple_file:
  "get_target_triple env s = Inr (out, s') \<Longrightarrow> D_LLVM_FILE s' = D_LLVM_FILE s"
  by (auto simp: get_target_triple_def purple_log_def fatal_def Let_def split: if_splits)

lemma preamble_ends_with_define_main:
  assumes "llvm_preamble env s = Inr s1"
  shows "\<exists>header. D_LLVM_FILE s1 = D_LLVM_FILE s @ header @ [TEXT define_main]"
proof -
  let ?s1 = "fprintf (TEXT (''; ModuleID = '' @ [CHR 0x27] @ D_INPUT_FN s @ [CHR 0x27])) s"
  from assms obtain target_datalayout s2 where
    dl: "get_target_datalayout env ?s1 = Inr (target_datalayout, s2)"
    by (auto simp: llvm_preamble_def Let_def split: sum.splits)
  let ?s3 = "fprintf (TEXT (''target datalayout = '' @ [CHR 0x22] @ target_datalayout
                              @ [CHR 0x22])) s2"
  from assms dl obtain target_triple s4 where
    tr: "get_target_triple env ?s3 = Inr (target_triple, s4)"
    by (auto simp: llvm_preamble_def Let_def split: sum.splits)
  have f2: "D_LLVM_FILE s2 = D_LLVM_FILE ?s1"
    by (rule get_target_datalayout_file [OF dl])
  have f4: "D_LLVM_FILE s4 = D_LLVM_FILE ?s3"
    by (rule get_target_triple_file [OF tr])
  from assms dl tr have "D_LLVM_FILE s1 =
      D_LLVM_FILE s4 @ map TEXT
        [''target triple = '' @ [CHR 0x22] @ target_triple @ [CHR 0x22],
         [],
         ''@print_int_fstring = private unnamed_addr constant [4 x i8] c''
           @ [CHR 0x22] @ ''%d'' @ [CHR 0x5C] @ ''0A'' @ [CHR 0x5C] @ ''00''
           @ [CHR 0x22] @ '', align 1'',
         [],
         ''; Function Attrs: noinline nounwind optnone uwtable'',
         define_main]"
    by (auto simp: llvm_preamble_def Let_def fprintf_lines_eq)
  with f2 f4 show ?thesis
    by (simp add: fprintf_def)
qed

lemma postamble_no_alloca:
  "\<exists>footer. D_LLVM_FILE (llvm_postamble f s) = D_LLVM_FILE s @ footer \<and>
            (\<forall>l\<in>set footer. \<not> is_alloca l)"
  unfolding llvm_postamble_def fprintf_lines_eq
  by (auto simp: is_alloca_def)

subsection \<open>The probe\<close>

lemma datalayout_while_outcome:
  "map_sum fst fst (datalayout_while (env\<lparr>clang_emit_llvm := p\<rparr>) lines s) =
   map_sum fst fst (datalayout_while env lines s')"
proof (induction lines)
  case Nil
  show ?case by simp
next
  case (Cons line lines)
  then show ?case
    by (simp add: regex_match_def fatal_def split_beta split: option.splits)
qed

lemma datalayout_while_no_match:
  "\<forall>l\<in>set lines. regexec env datalayout_regex l = None \<Longrightarrow>
   map_sum fst fst (datalayout_while env lines s) = Inl RC_COMPILER_ERROR \<or>
   map_sum fst fst (datalayout_while env lines s) = Inr None"
  by (induction lines) (simp_all add: regex_match_def fatal_def)

lemma get_target_datalayout_outcome:
  "map_sum fst fst (get_target_datalayout env s) =
     (if \<not> generatorProgramWritten s \<and> \<not> fopen_generator_program env then Inl RC_FILE_ERROR
      else case fopen_generator_program_ll env of
             None \<Rightarrow> Inl RC_FILE_ERROR
           | Some lines \<Rightarrow>
               (case map_sum fst fst (datalayout_while env lines s) of
                  Inl rc \<Rightarrow> Inl rc
                | Inr None \<Rightarrow> Inl RC_COMPILER_ERROR
                | Inr (Some out) \<Rightarrow> Inr out))"
proof -
  have loop: "map_sum fst fst (datalayout_while env lines s1) =
              map_sum fst fst (datalayout_while env lines s)" for lines s1
    using datalayout_while_outcome
      [where env = env and p = "clang_emit_llvm env" and lines = lines and s = s1 and s' = s]
    by simp
  show ?thesis
  proof (cases "\<not> generatorProgramWritten s \<and> \<not> fopen_generator_program env")
    case True
    then show ?thesis
      by (simp add: get_target_datalayout_def create_tmp_generator_program_def fatal_def Let_def)
  next
    case False
    then have "\<exists>s1.
      (if \<not> generatorProgramWritten s then create_tmp_generator_program env s else Inr s)
         = Inr s1"
      by (cases "generatorProgramWritten s")
        (simp_all add: create_tmp_generator_program_def Let_def)
    then obtain s1 where s1:
      "(if \<not> generatorProgramWritten s then create_tmp_generator_program env s else Inr s)
         = Inr s1"
      by blast
    show ?thesis
    proof (cases "fopen_generator_program_ll env")
      case None
      with False s1 show ?thesis
        by (simp add: get_target_datalayout_def fatal_def Let_def)
    next
      case (Some lines)
      let ?s2 = "purple_log LOG_DEBUG ''Retrieving target datalayout'' s1"
      have unfold: "get_target_datalayout env s =
            (case datalayout_while env lines ?s2 of
               Inl abort \<Rightarrow> Inl abort
             | Inr (None, s3) \<Rightarrow> fatal RC_COMPILER_ERROR s3
             | Inr (Some out, s3) \<Rightarrow> Inr (out, s3))"
        unfolding get_target_datalayout_def s1 by (simp add: Some Let_def)
      have "map_sum fst fst (get_target_datalayout env s) =
            (case map_sum fst fst (datalayout_while env lines ?s2) of
               Inl rc \<Rightarrow> Inl rc
             | Inr None \<Rightarrow> Inl RC_COMPILER_ERROR
             | Inr (Some out) \<Rightarrow> Inr out)"
      proof (cases "datalayout_while env lines ?s2")
        case (Inl abort)
        then show ?thesis by (simp add: unfold)
      next
        case (Inr found)
        obtain out s3 where "found = (out, s3)" by (cases found)
        with Inr show ?thesis
          by (cases out) (simp_all add: unfold fatal_def)
      qed
      with False Some loop [of lines ?s2] show ?thesis
        by auto
    qed
  qed
qed

subsection \<open>The text of the lines, and a cell of the array that starts as true\<close>

lemma text_of_two_plus_three:
  "file_text tab_newline
     (start\<lparr>D_LLVM_FILE :=
        [ALLOCA 1 NT_INT32 4, ALLOCA 2 NT_INT32 4, STORE NT_INT32 ''%d'' 2 1 4,
         STORE NT_INT32 ''%d'' 3 2 4, LOAD 3 1, LOAD 4 2, ADD 5 3 4, CALL_PRINTF 5]\<rparr>) =
   [CHR 0x09] @ ''%1 = alloca i32, align 4'' @ [CHR 0x0A] @
   [CHR 0x09] @ ''%2 = alloca i32, align 4'' @ [CHR 0x0A] @
   [CHR 0x09] @ ''store i32 2, i32* %1, align 4'' @ [CHR 0x0A] @
   [CHR 0x09] @ ''store i32 3, i32* %2, align 4'' @ [CHR 0x0A] @
   [CHR 0x09] @ ''%3 = load i32, i32* %1, align 4'' @ [CHR 0x0A] @
   [CHR 0x09] @ ''%4 = load i32, i32* %2, align 4'' @ [CHR 0x0A] @
   [CHR 0x09] @ ''%5 = add nsw i32 %3, %4'' @ [CHR 0x0A] @
   [CHR 0x09] @ ''call i32 (i8*, ...) @printf(i8* getelementptr inbounds ([4 x i8], ''
     @ ''[4 x i8]* @print_int_fstring , i32 0, i32 0), i32 %5)'' @ [CHR 0x0A]"
  by (simp add: file_text_def tab_newline_def percent_llu_def percent_d_def decimal.simps)

text \<open>
  When cell 0 of \<^verbatim>\<open>found_registers\<close> starts as true, the register at position 0 is taken
  for a loaded one: \<^verbatim>\<open>%1\<close> is returned as it is, and only \<^verbatim>\<open>%2\<close> is loaded.
\<close>

lemma cell_that_starts_true:
  "llvm_ensure_registers_loaded (\<lambda>i. i = 0) [1, 2] start =
     (Some [1, 3],
      start\<lparr>D_LLVM_LOCAL_VIRTUAL_REGISTER_NUMBER := 4, D_LLVM_FILE := [LOAD 3 2],
            loadedRegistersHead := [3]\<rparr>)"
  by (simp add: start_def llvm_ensure_registers_loaded_def search_for.simps load_for.simps
      get_next_local_virtual_register_def fprintf_def prepend_loaded_eq)

section \<open>The claims\<close>

subsection \<open>C1: what llvm_ensure_registers_loaded returns\<close>

text \<open>
  C1 does not hold as stated. In \<open>loaded_once\<close> the value of the address register \<^verbatim>\<open>%1\<close>
  has been loaded into \<^verbatim>\<open>%3\<close>, and the loaded list is \<^verbatim>\<open>[%3]\<close>. A request for \<^verbatim>\<open>%3\<close>
  returns \<^verbatim>\<open>NULL\<close> and not a list of length one. A second request for \<^verbatim>\<open>%1\<close> does not
  return the register \<^verbatim>\<open>%3\<close> that holds its value: the list has no entry for \<^verbatim>\<open>%1\<close>, a
  second load is printed and the new register \<^verbatim>\<open>%4\<close> is returned.
\<close>

theorem ensure_loaded_not_as_claimed:
  "loadedRegistersHead loaded_once = [3] \<and>
   D_LLVM_FILE loaded_once = [LOAD 3 1] \<and>
   llvm_ensure_registers_loaded zeroed [3] loaded_once = (None, loaded_once) \<and>
   llvm_ensure_registers_loaded zeroed [1] loaded_once =
     (Some [4],
      loaded_once\<lparr>D_LLVM_LOCAL_VIRTUAL_REGISTER_NUMBER := 5,
                   D_LLVM_FILE := [LOAD 3 1, LOAD 4 1],
                   loadedRegistersHead := [4, 3]\<rparr>)"
  by (simp add: loaded_once_def start_def llvm_ensure_registers_loaded_def zeroed_def
      search_for.simps load_for.simps get_next_local_virtual_register_def fprintf_def
      prepend_loaded_eq)

text \<open>
  C1, amended. Called with every cell of \<^verbatim>\<open>found_registers\<close> false (the source declares
  the array without initialising it), \<^verbatim>\<open>llvm_ensure_registers_loaded\<close> returns \<^verbatim>\<open>NULL\<close>,
  prints nothing and changes nothing when its argument is not empty and every register
  of it is in the loaded list. In every other case it returns a list of the same length
  and in the same order as its argument. A position whose register is in the loaded
  list holds that register itself, and nothing is printed for it. Every other position
  holds a newly issued virtual register (the successive values of the counter); for
  each of them, in order, one load from the register of the argument into the new
  register is printed, and the new register is put at the head of the loaded list. The
  list of free registers and the rest of the global data are unchanged.
\<close>

theorem ensure_loaded_zeroed:
  fixes s :: globals and registers :: "type_register list"
  defines "loaded \<equiv> set (loadedRegistersHead s)"
    and "missing \<equiv> filter (\<lambda>j. registers ! j \<notin> set (loadedRegistersHead s)) [0..<length registers]"
  shows
    "(registers \<noteq> [] \<and> set registers \<subseteq> loaded \<longrightarrow>
        llvm_ensure_registers_loaded zeroed registers s = (None, s)) \<and>
     (registers = [] \<or> \<not> set registers \<subseteq> loaded \<longrightarrow>
        (\<exists>loaded_registers.
           llvm_ensure_registers_loaded zeroed registers s =
             (Some loaded_registers,
              s\<lparr>D_LLVM_LOCAL_VIRTUAL_REGISTER_NUMBER :=
                   D_LLVM_LOCAL_VIRTUAL_REGISTER_NUMBER s + of_nat (length missing),
                 D_LLVM_FILE :=
                   D_LLVM_FILE s @ map (\<lambda>j. LOAD (loaded_registers ! j) (registers ! j)) missing,
                 loadedRegistersHead :=
                   rev (map (\<lambda>j. loaded_registers ! j) missing) @ loadedRegistersHead s\<rparr>) \<and>
           length loaded_registers = length registers \<and>
           (\<forall>j<length registers. registers ! j \<in> loaded \<longrightarrow> loaded_registers ! j = registers ! j) \<and>
           map (\<lambda>j. loaded_registers ! j) missing =
             map (\<lambda>k. D_LLVM_LOCAL_VIRTUAL_REGISTER_NUMBER s + of_nat k) [0..<length missing]))"
proof (cases "registers \<noteq> [] \<and> set registers \<subseteq> loaded")
  case True
  then have "search_while (loadedRegistersHead s) registers
               (map zeroed [0..<length registers]) 0 = None"
    by (simp add: search_zeroed_None loaded_def)
  with True show ?thesis by (simp add: ensure_loaded_NULL)
next
  case False
  then obtain fr found where
    search: "search_while (loadedRegistersHead s) registers
               (map zeroed [0..<length registers]) 0 = Some (fr, found)"
    using search_zeroed_None [of "loadedRegistersHead s" registers]
    by (cases "search_while (loadedRegistersHead s) registers
                 (map zeroed [0..<length registers]) 0") (auto simp: loaded_def)
  from search_zeroed_Some [OF search] have fr: "fr = map (\<lambda>r. r \<in> loaded) registers"
    by (simp add: loaded_def)
  have "filter (\<lambda>j. \<not> fr ! j) [0..<length registers] = missing"
    unfolding missing_def by (rule filter_cong) (simp_all add: fr loaded_def)
  with ensure_loaded_list [OF search] False fr show ?thesis
    by auto
qed

text \<open>
  A witness for both cases, from the global data in which \<^verbatim>\<open>%3\<close> is loaded: the argument
  \<^verbatim>\<open>[%3]\<close> gives \<^verbatim>\<open>NULL\<close>; in the argument \<^verbatim>\<open>[%3, %1, %3, %7]\<close> the two positions of
  \<^verbatim>\<open>%3\<close> are kept and \<^verbatim>\<open>%1\<close>, \<^verbatim>\<open>%7\<close> are loaded into \<^verbatim>\<open>%4\<close>, \<^verbatim>\<open>%5\<close>.
\<close>

theorem ensure_loaded_zeroed_witness:
  "([3] \<noteq> [] \<and> set [3] \<subseteq> set (loadedRegistersHead loaded_once) \<and>
    llvm_ensure_registers_loaded zeroed [3] loaded_once = (None, loaded_once)) \<and>
   (\<not> set [3, 1, 3, 7] \<subseteq> set (loadedRegistersHead loaded_once) \<and>
    llvm_ensure_registers_loaded zeroed [3, 1, 3, 7] loaded_once =
      (Some [3, 4, 3, 5],
       loaded_once\<lparr>D_LLVM_LOCAL_VIRTUAL_REGISTER_NUMBER := 6,
                    D_LLVM_FILE := [LOAD 3 1, LOAD 4 1, LOAD 5 7],
                    loadedRegistersHead := [5, 4, 3]\<rparr>))"
  using ensure_loaded_zeroed [of "[3]" loaded_once]
    ensure_loaded_zeroed [of "[3, 1, 3, 7]" loaded_once]
  by (simp add: loaded_once_def start_def llvm_ensure_registers_loaded_def zeroed_def
      search_for.simps load_for.simps get_next_local_virtual_register_def fprintf_def
      prepend_loaded_eq)

subsection \<open>C2: loads across a pass\<close>

text \<open>
  C2 does not hold as stated: the loaded list records the register a value was loaded
  into, not the address register it was loaded from, so a second request for the address
  register \<^verbatim>\<open>%1\<close> prints a second load from it.
\<close>

theorem second_load_of_same_address:
  "D_LLVM_FILE start = [] \<and>
   D_LLVM_FILE (snd (llvm_ensure_registers_loaded zeroed [1] start)) = [LOAD 3 1] \<and>
   D_LLVM_FILE
     (snd (llvm_ensure_registers_loaded zeroed [1]
        (snd (llvm_ensure_registers_loaded zeroed [1] start)))) = [LOAD 3 1, LOAD 4 1]"
  by (simp add: start_def llvm_ensure_registers_loaded_def zeroed_def
      search_for.simps load_for.simps get_next_local_virtual_register_def fprintf_def
      prepend_loaded_eq)

text \<open>
  C2, amended. A call of \<^verbatim>\<open>llvm_ensure_registers_loaded\<close> prints nothing but loads, at
  most one for each position of its argument, and each of them from a register of the
  argument that is not in the loaded list when the call is made. Hence, over any sequence
  of calls of the functions of llvm.c that print instructions, no load is printed from a
  register once it is in the loaded list. (The list holds the registers that loads and
  arithmetic have written, not the address registers read: an address register that is
  requested again is loaded again.)
\<close>

theorem loads_only_from_unlisted_registers:
  "(\<exists>new. D_LLVM_FILE (snd (llvm_ensure_registers_loaded stack registers s)) =
             D_LLVM_FILE s @ new \<and>
          length new \<le> length registers \<and>
          (\<forall>l\<in>set new. \<exists>d a. l = LOAD d a \<and> a \<in> set registers \<and>
                                a \<notin> set (loadedRegistersHead s))) \<and>
   (r \<in> set (loadedRegistersHead s) \<longrightarrow>
      (\<exists>new. D_LLVM_FILE (final (emit_all calls s)) = D_LLVM_FILE s @ new \<and>
             (\<forall>d. LOAD d r \<notin> set new)))"
proof -
  from ensure_loaded_any_stack [of stack registers s]
  have one: "\<exists>new. D_LLVM_FILE (snd (llvm_ensure_registers_loaded stack registers s)) =
             D_LLVM_FILE s @ new \<and>
          length new \<le> length registers \<and>
          (\<forall>l\<in>set new. \<exists>d a. l = LOAD d a \<and> a \<in> set registers \<and>
                                a \<notin> set (loadedRegistersHead s))"
    by blast
  from emit_all_appends [of calls s] obtain new where
    "D_LLVM_FILE (final (emit_all calls s)) = D_LLVM_FILE s @ new"
    "\<forall>l\<in>set new. \<forall>d a. l = LOAD d a \<longrightarrow> a \<notin> set (loadedRegistersHead s)"
    by blast
  then have
    "r \<in> set (loadedRegistersHead s) \<longrightarrow>
      (\<exists>new. D_LLVM_FILE (final (emit_all calls s)) = D_LLVM_FILE s @ new \<and>
             (\<forall>d. LOAD d r \<notin> set new))"
    by blast
  with one show ?thesis by blast
qed

text \<open>
  A witness: \<^verbatim>\<open>%3\<close> is in the loaded list; the calls request \<^verbatim>\<open>%3\<close> three times and
  \<^verbatim>\<open>%1\<close> once, and the only load printed is from \<^verbatim>\<open>%1\<close>.
\<close>

theorem loads_only_from_unlisted_registers_witness:
  "3 \<in> set (loadedRegistersHead loaded_once) \<and>
   D_LLVM_FILE
     (final (emit_all
        [ENSURE_REGISTERS_LOADED zeroed [3, 1],
         BINARY_ARITHMETIC T_STAR (LLVMVALUE_VIRTUAL_REGISTER 3) (LLVMVALUE_VIRTUAL_REGISTER 4),
         ENSURE_REGISTERS_LOADED zeroed [5, 3],
         PRINT_INT 3] loaded_once)) =
     D_LLVM_FILE loaded_once @ [LOAD 4 1, MUL 5 3 4, CALL_PRINTF 3] \<and>
   (\<forall>d. LOAD d 3 \<notin> set [LOAD 4 1, MUL 5 3 4, CALL_PRINTF 3])"
  using loads_only_from_unlisted_registers
    [of zeroed "[3, 1]" loaded_once 3
      "[ENSURE_REGISTERS_LOADED zeroed [3, 1],
        BINARY_ARITHMETIC T_STAR (LLVMVALUE_VIRTUAL_REGISTER 3) (LLVMVALUE_VIRTUAL_REGISTER 4),
        ENSURE_REGISTERS_LOADED zeroed [5, 3],
        PRINT_INT 3]"]
  by (simp add: loaded_once_def start_def llvm_ensure_registers_loaded_def zeroed_def
      search_for.simps load_for.simps get_next_local_virtual_register_def fprintf_def
      prepend_loaded_eq binary_arithmetic_cases print_int_eq LLVMVALUE_VIRTUAL_REGISTER_def)

subsection \<open>C3: the numbers of the virtual registers\<close>

text \<open>
  C3. A call of \<^verbatim>\<open>get_next_local_virtual_register\<close> returns the value of the counter and
  increments the counter. The numbers that \<open>n\<close> calls in a row return are strictly
  increasing and distinct, within the id space of the 64-bit register type (the spec:
  "never fails within the id space of the target integer width"): from the counter \<open>c\<close>,
  as long as \<open>c + n\<close> does not pass \<open>2 ^ 64\<close>.
\<close>

theorem get_next_local_virtual_register_increasing:
  "get_next_local_virtual_register s =
     (D_LLVM_LOCAL_VIRTUAL_REGISTER_NUMBER s,
      s\<lparr>D_LLVM_LOCAL_VIRTUAL_REGISTER_NUMBER := D_LLVM_LOCAL_VIRTUAL_REGISTER_NUMBER s + 1\<rparr>) \<and>
   (unat (D_LLVM_LOCAL_VIRTUAL_REGISTER_NUMBER s) + n \<le> 2 ^ 64 \<longrightarrow>
      sorted_wrt (<) (fst (get_next_n n s)) \<and> distinct (fst (get_next_n n s)))"
  using increasing_values [of "D_LLVM_LOCAL_VIRTUAL_REGISTER_NUMBER s" n]
  by (auto simp: get_next_local_virtual_register_def get_next_n_values strict_sorted_iff
      simp del: upt_Suc)

text \<open>A witness: four calls from the counter 3 return 3, 4, 5 and 6.\<close>

theorem get_next_local_virtual_register_increasing_witness:
  "unat (D_LLVM_LOCAL_VIRTUAL_REGISTER_NUMBER start) + 4 \<le> 2 ^ 64 \<and>
   fst (get_next_n 4 start) = [3, 4, 5, 6] \<and>
   sorted_wrt (<) (fst (get_next_n 4 start)) \<and> distinct (fst (get_next_n 4 start))"
proof -
  have ids: "fst (get_next_n 4 start) = [3, 4, 5, 6]"
    by (simp add: start_def eval_nat_numeral get_next_local_virtual_register_def)
  have "unat (D_LLVM_LOCAL_VIRTUAL_REGISTER_NUMBER start) + 4 \<le> 2 ^ 64"
    by (simp add: start_def)
  with get_next_local_virtual_register_increasing [of start 4] ids show ?thesis
    by simp
qed

subsection \<open>C4: binary arithmetic\<close>

text \<open>
  C4. For each of the four supported operators and any two operands,
  \<^verbatim>\<open>llvm_binary_arithmetic\<close> issues one new register, prints exactly one instruction,
  the one of the operator (\<^verbatim>\<open>+\<close>: \<^verbatim>\<open>add\<close>, \<^verbatim>\<open>-\<close>: \<^verbatim>\<open>sub\<close>, \<^verbatim>\<open>*\<close>: \<^verbatim>\<open>mul\<close>, \<^verbatim>\<open>/\<close>:
  \<^verbatim>\<open>udiv\<close>), from the registers of the two operands into the new register, puts the new
  register at the head of the loaded list, and returns it as a value reference.
\<close>

theorem llvm_binary_arithmetic_emits:
  fixes s :: globals and left right :: LLVMValue
  defines "r \<equiv> D_LLVM_LOCAL_VIRTUAL_REGISTER_NUMBER s"
    and "l \<equiv> virtual_register_index left" and "l' \<equiv> virtual_register_index right"
  defines "after \<equiv> \<lambda>line. Inr (LLVMVALUE_VIRTUAL_REGISTER r,
       s\<lparr>D_LLVM_LOCAL_VIRTUAL_REGISTER_NUMBER := r + 1,
         D_LLVM_FILE := D_LLVM_FILE s @ [line],
         loadedRegistersHead := r # loadedRegistersHead s\<rparr>)"
  shows
    "llvm_binary_arithmetic T_PLUS left right s = after (ADD r l l') \<and>
     llvm_binary_arithmetic T_MINUS left right s = after (SUB r l l') \<and>
     llvm_binary_arithmetic T_STAR left right s = after (MUL r l l') \<and>
     llvm_binary_arithmetic T_SLASH left right s = after (UDIV r l l') \<and>
     render f (ADD r l l') =
       TAB f @ ''%'' @ percent_llu r @ '' = add nsw i32 %'' @ percent_llu l @ '', %''
         @ percent_llu l' @ NEWLINE f \<and>
     render f (SUB r l l') =
       TAB f @ ''%'' @ percent_llu r @ '' = sub nsw i32 %'' @ percent_llu l @ '', %''
         @ percent_llu l' @ NEWLINE f \<and>
     render f (MUL r l l') =
       TAB f @ ''%'' @ percent_llu r @ '' = mul nsw i32 %'' @ percent_llu l @ '', %''
         @ percent_llu l' @ NEWLINE f \<and>
     render f (UDIV r l l') =
       TAB f @ ''%'' @ percent_llu r @ '' = udiv i32 %'' @ percent_llu l @ '', %''
         @ percent_llu l' @ NEWLINE f"
  unfolding after_def r_def l_def l'_def
  by (simp add: llvm_binary_arithmetic_def llvm_add_def llvm_subtract_def llvm_multiply_def
      llvm_divide_def get_next_local_virtual_register_def fprintf_def prepend_loaded_eq)

subsection \<open>C5: exponentiation and other operators\<close>

text \<open>
  C5. \<^verbatim>\<open>llvm_binary_arithmetic\<close> called with the exponentiation operator aborts with the
  return code \<^verbatim>\<open>RC_COMPILER_ERROR\<close>, and so does a call with any operator other than
  the four supported ones; the global data at the abort are those of the call: nothing has
  been printed, no register issued.
\<close>

theorem llvm_binary_arithmetic_unsupported:
  "llvm_binary_arithmetic T_EXPONENT left right s = Inl (RC_COMPILER_ERROR, s) \<and>
   (operation \<notin> {T_PLUS, T_MINUS, T_STAR, T_SLASH} \<longrightarrow>
      llvm_binary_arithmetic operation left right s = Inl (RC_COMPILER_ERROR, s))"
  by (cases operation) (simp_all add: llvm_binary_arithmetic_def fatal_def)

text \<open>
  A witness: the keyword token \<^verbatim>\<open>print\<close> as the operation, and the exponentiation
  operator, with the file and the loaded list of \<open>loaded_once\<close> left as they were.
\<close>

theorem llvm_binary_arithmetic_unsupported_witness:
  "T_PRINT \<notin> {T_PLUS, T_MINUS, T_STAR, T_SLASH} \<and>
   llvm_binary_arithmetic T_PRINT (LLVMVALUE_VIRTUAL_REGISTER 3) (LLVMVALUE_VIRTUAL_REGISTER 4)
     loaded_once = Inl (RC_COMPILER_ERROR, loaded_once) \<and>
   llvm_binary_arithmetic T_EXPONENT (LLVMVALUE_VIRTUAL_REGISTER 3)
     (LLVMVALUE_VIRTUAL_REGISTER 4) loaded_once = Inl (RC_COMPILER_ERROR, loaded_once)"
  using llvm_binary_arithmetic_unsupported
    [of "LLVMVALUE_VIRTUAL_REGISTER 3" "LLVMVALUE_VIRTUAL_REGISTER 4" loaded_once T_PRINT]
  by simp

subsection \<open>C6: what aborts the probe\<close>

text \<open>
  C6 does not hold as stated for the datalayout query. In the environment \<open>stale_file\<close> the
  compilation of the generator program exits with a status other than 0; the status is
  logged as an error, \<^verbatim>\<open>get_target_datalayout\<close> returns the datalayout it finds in the file
  that is there, and \<^verbatim>\<open>llvm_preamble\<close> returns.
\<close>

theorem generator_compile_failure_is_not_fatal:
  "pclose_status (clang_emit_llvm stale_file) = 256 \<and>
   map_sum fst fst (get_target_datalayout stale_file start) = Inr ''e-m:e'' \<and>
   (LOG_ERROR, ''clang exited with return code %d while compiling generator program'')
     \<in> set (purple_log_calls (final (map_sum id snd (get_target_datalayout stale_file start)))) \<and>
   map_sum fst generatorProgramWritten (llvm_preamble stale_file start) = Inr True"
  by (simp add: stale_file_def start_def datalayout_line_def llvm_preamble_def
      get_target_datalayout_def create_tmp_generator_program_def get_target_triple_def
      regex_match_def datalayout_regex_def purple_log_def fprintf_def fprintf_lines_eq Let_def)

text \<open>
  C6, amended. \<^verbatim>\<open>get_target_triple\<close> aborts with \<^verbatim>\<open>RC_ERROR\<close> when \<^verbatim>\<open>pclose\<close> reports a
  failure (-1) or any other status than 0 of the probed process. The compilation of the
  generator program does not abort on either: \<^verbatim>\<open>create_tmp_generator_program\<close> returns
  whenever the generator source could be opened for writing, and logs an error exactly
  when the status is not 0; whether \<^verbatim>\<open>get_target_datalayout\<close> aborts, and what it
  returns, does not depend on what that process did. \<^verbatim>\<open>get_target_datalayout\<close> aborts
  with \<^verbatim>\<open>RC_FILE_ERROR\<close> when the generator source cannot be opened for writing or the
  LLVM file of the generator program cannot be opened for reading, and with
  \<^verbatim>\<open>RC_COMPILER_ERROR\<close> when no line of that file matches the datalayout pattern.
\<close>

theorem probe_aborts:
  "(pclose_status (clang_print_target_triple env) \<noteq> 0 \<longrightarrow>
      get_target_triple env s =
        Inl (RC_ERROR, purple_log LOG_DEBUG ''Retrieving target triple'' s)) \<and>
   (fopen_generator_program env \<longrightarrow>
      (\<exists>s' new. create_tmp_generator_program env s = Inr s' \<and>
         generatorProgramWritten s' \<and>
         purple_log_calls s' = purple_log_calls s @ new \<and>
         (LOG_ERROR \<in> fst ` set new \<longleftrightarrow> pclose_status (clang_emit_llvm env) \<noteq> 0))) \<and>
   map_sum fst fst (get_target_datalayout (env\<lparr>clang_emit_llvm := p\<rparr>) s) =
     map_sum fst fst (get_target_datalayout env s) \<and>
   (\<not> generatorProgramWritten s \<and> \<not> fopen_generator_program env \<longrightarrow>
      map_sum fst fst (get_target_datalayout env s) = Inl RC_FILE_ERROR) \<and>
   (fopen_generator_program_ll env = None \<longrightarrow>
      map_sum fst fst (get_target_datalayout env s) = Inl RC_FILE_ERROR) \<and>
   ((generatorProgramWritten s \<or> fopen_generator_program env) \<and>
    (\<exists>lines. fopen_generator_program_ll env = Some lines \<and>
       (\<forall>l\<in>set lines. regexec env datalayout_regex l = None)) \<longrightarrow>
      map_sum fst fst (get_target_datalayout env s) = Inl RC_COMPILER_ERROR)"
proof -
  have triple: "pclose_status (clang_print_target_triple env) \<noteq> 0 \<longrightarrow>
      get_target_triple env s =
        Inl (RC_ERROR, purple_log LOG_DEBUG ''Retrieving target triple'' s)"
    by (simp add: get_target_triple_def fatal_def Let_def)
  have compile: "fopen_generator_program env \<longrightarrow>
      (\<exists>s' new. create_tmp_generator_program env s = Inr s' \<and>
         generatorProgramWritten s' \<and>
         purple_log_calls s' = purple_log_calls s @ new \<and>
         (LOG_ERROR \<in> fst ` set new \<longleftrightarrow> pclose_status (clang_emit_llvm env) \<noteq> 0))"
    by (simp add: create_tmp_generator_program_def purple_log_def Let_def)
  have loop: "map_sum fst fst (datalayout_while (env\<lparr>clang_emit_llvm := p\<rparr>) lines s) =
              map_sum fst fst (datalayout_while env lines s)" for lines
    by (rule datalayout_while_outcome)
  have independent: "map_sum fst fst (get_target_datalayout (env\<lparr>clang_emit_llvm := p\<rparr>) s) =
     map_sum fst fst (get_target_datalayout env s)"
    by (simp add: get_target_datalayout_outcome loop split: option.splits)
  have source: "\<not> generatorProgramWritten s \<and> \<not> fopen_generator_program env \<longrightarrow>
      map_sum fst fst (get_target_datalayout env s) = Inl RC_FILE_ERROR"
    by (simp add: get_target_datalayout_outcome)
  have ll: "fopen_generator_program_ll env = None \<longrightarrow>
      map_sum fst fst (get_target_datalayout env s) = Inl RC_FILE_ERROR"
    by (simp add: get_target_datalayout_outcome)
  have no_match: "(generatorProgramWritten s \<or> fopen_generator_program env) \<and>
    (\<exists>lines. fopen_generator_program_ll env = Some lines \<and>
       (\<forall>l\<in>set lines. regexec env datalayout_regex l = None)) \<longrightarrow>
      map_sum fst fst (get_target_datalayout env s) = Inl RC_COMPILER_ERROR"
  proof (intro impI, elim conjE exE)
    fix lines
    assume written: "generatorProgramWritten s \<or> fopen_generator_program env"
      and lines: "fopen_generator_program_ll env = Some lines"
      and none: "\<forall>l\<in>set lines. regexec env datalayout_regex l = None"
    from datalayout_while_no_match [OF none, of s] written lines
    show "map_sum fst fst (get_target_datalayout env s) = Inl RC_COMPILER_ERROR"
      by (auto simp: get_target_datalayout_outcome)
  qed
  from triple compile independent source ll no_match show ?thesis
    by blast
qed

text \<open>
  A witness: a shell that does not find clang (status 32512) aborts the triple query;
  the failed compilation of the generator program is logged and returns; without the
  LLVM file, and with an LLVM file that has no datalayout line, the datalayout query
  aborts.
\<close>

theorem probe_aborts_witness:
  "(pclose_status
      (clang_print_target_triple
         (stale_file\<lparr>clang_print_target_triple := \<lparr>fgets_lines = [], pclose_status = 32512\<rparr>\<rparr>))
      \<noteq> 0 \<and>
    map_sum fst fst
      (get_target_triple
         (stale_file\<lparr>clang_print_target_triple := \<lparr>fgets_lines = [], pclose_status = 32512\<rparr>\<rparr>)
         start) = Inl RC_ERROR) \<and>
   (fopen_generator_program stale_file \<and>
    map_sum fst generatorProgramWritten (create_tmp_generator_program stale_file start)
      = Inr True) \<and>
   (fopen_generator_program_ll (stale_file\<lparr>fopen_generator_program_ll := None\<rparr>) = None \<and>
    map_sum fst fst
      (get_target_datalayout (stale_file\<lparr>fopen_generator_program_ll := None\<rparr>) start)
      = Inl RC_FILE_ERROR) \<and>
   (\<not> generatorProgramWritten start \<and>
    \<not> fopen_generator_program (stale_file\<lparr>fopen_generator_program := False\<rparr>) \<and>
    map_sum fst fst
      (get_target_datalayout (stale_file\<lparr>fopen_generator_program := False\<rparr>) start)
      = Inl RC_FILE_ERROR) \<and>
   (fopen_generator_program (stale_file\<lparr>fopen_generator_program_ll := Some [''source_filename'']\<rparr>) \<and>
    regexec (stale_file\<lparr>fopen_generator_program_ll := Some [''source_filename'']\<rparr>)
      datalayout_regex ''source_filename'' = None \<and>
    map_sum fst fst
      (get_target_datalayout
         (stale_file\<lparr>fopen_generator_program_ll := Some [''source_filename'']\<rparr>) start)
      = Inl RC_COMPILER_ERROR)"
proof -
  let ?no_clang =
    "stale_file\<lparr>clang_print_target_triple := \<lparr>fgets_lines = [], pclose_status = 32512\<rparr>\<rparr>"
  let ?no_ll = "stale_file\<lparr>fopen_generator_program_ll := None\<rparr>"
  let ?no_source = "stale_file\<lparr>fopen_generator_program := False\<rparr>"
  let ?no_line = "stale_file\<lparr>fopen_generator_program_ll := Some [''source_filename'']\<rparr>"
  have 1: "pclose_status (clang_print_target_triple ?no_clang) \<noteq> 0"
    by (simp add: stale_file_def)
  have 2: "fopen_generator_program stale_file"
    by (simp add: stale_file_def)
  have 3: "fopen_generator_program_ll ?no_ll = None"
    by simp
  have 4: "\<not> generatorProgramWritten start \<and> \<not> fopen_generator_program ?no_source"
    by (simp add: start_def)
  have 5: "fopen_generator_program ?no_line"
    "regexec ?no_line datalayout_regex ''source_filename'' = None"
    by (simp_all add: stale_file_def datalayout_line_def)
  from 5 have 6: "(generatorProgramWritten start \<or> fopen_generator_program ?no_line) \<and>
    (\<exists>lines. fopen_generator_program_ll ?no_line = Some lines \<and>
       (\<forall>l\<in>set lines. regexec ?no_line datalayout_regex l = None))"
    by simp
  from probe_aborts [where env = ?no_clang and s = start and p = "clang_emit_llvm stale_file"] 1
  have "map_sum fst fst (get_target_triple ?no_clang start) = Inl RC_ERROR"
    by simp
  moreover from probe_aborts [where env = stale_file and s = start and p = "clang_emit_llvm stale_file"] 2
  have "map_sum fst generatorProgramWritten (create_tmp_generator_program stale_file start)
      = Inr True"
    by auto
  moreover from probe_aborts [where env = ?no_ll and s = start and p = "clang_emit_llvm stale_file"] 3
  have "map_sum fst fst (get_target_datalayout ?no_ll start) = Inl RC_FILE_ERROR"
    by blast
  moreover from probe_aborts [where env = ?no_source and s = start and p = "clang_emit_llvm stale_file"] 4
  have "map_sum fst fst (get_target_datalayout ?no_source start) = Inl RC_FILE_ERROR"
    by blast
  moreover from probe_aborts [where env = ?no_line and s = start and p = "clang_emit_llvm stale_file"] 6
  have "map_sum fst fst (get_target_datalayout ?no_line start) = Inl RC_COMPILER_ERROR"
    by blast
  ultimately show ?thesis
    using 1 2 3 4 5 by blast
qed

subsection \<open>C7: storing a constant\<close>

text \<open>
  C7. \<^verbatim>\<open>llvm_store_constant\<close> takes its target register from the head of the stack of
  free registers when there is one and issues a new register otherwise, prints exactly
  one line, the store of the value of the number to that register, written with the
  format string, the type and the byte size of the type of the number, and returns that
  register as an address reference. Nothing else changes.
\<close>

theorem llvm_store_constant_stores:
  "llvm_store_constant v s =
    (case freeVirtualRegistersHead s of
       r # rest \<Rightarrow>
         (LLVMVALUE_VIRTUAL_REGISTER_POINTER r,
          s\<lparr>freeVirtualRegistersHead := rest,
            D_LLVM_FILE := D_LLVM_FILE s @
              [STORE (type v) (numberTypeFormatStrings (type v)) (int_value v) r
                 (numberTypeByteSizes (type v))]\<rparr>)
     | [] \<Rightarrow>
         (LLVMVALUE_VIRTUAL_REGISTER_POINTER (D_LLVM_LOCAL_VIRTUAL_REGISTER_NUMBER s),
          s\<lparr>D_LLVM_LOCAL_VIRTUAL_REGISTER_NUMBER := D_LLVM_LOCAL_VIRTUAL_REGISTER_NUMBER s + 1,
            D_LLVM_FILE := D_LLVM_FILE s @
              [STORE (type v) (numberTypeFormatStrings (type v)) (int_value v)
                 (D_LLVM_LOCAL_VIRTUAL_REGISTER_NUMBER s) (numberTypeByteSizes (type v))]\<rparr>)) \<and>
   value_type (fst (llvm_store_constant v s)) = LLVMVALUETYPE_VIRTUAL_REGISTER_POINTER \<and>
   render f (STORE (type v) (numberTypeFormatStrings (type v)) (int_value v) r
               (numberTypeByteSizes (type v))) =
     TAB f @ ''store '' @ numberTypeLLVMReprs f (type v) @ '' ''
       @ fprintf_number (numberTypeFormatStrings (type v)) (int_value v)
       @ '', '' @ numberTypeLLVMReprs f (type v) @ ''* %'' @ percent_llu r @ '', align ''
       @ percent_d (numberTypeByteSizes (type v)) @ NEWLINE f"
  by (simp add: store_constant_cases LLVMVALUE_VIRTUAL_REGISTER_POINTER_def split: list.splits)

subsection \<open>C8: the stack allocations\<close>

text \<open>
  C8. \<^verbatim>\<open>llvm_stack_allocation\<close> prints exactly one allocation for each entry of its
  list, in the order of the list, with the register, the type and the alignment of the
  entry, and nothing else. In the pass of \<^verbatim>\<open>generate_llvm\<close>, whenever the preamble has been
  printed, these lines stand right after the line that opens the function body, and no
  line after them is an allocation: whatever the instruction-emitting calls are, and
  whether they run to the end or abort, every instruction that is not an allocation
  comes after all the allocations.
\<close>

theorem stack_allocations_first:
  "llvm_stack_allocation stack_entries s =
     s\<lparr>D_LLVM_FILE :=
         D_LLVM_FILE s @
         map (\<lambda>e. ALLOCA (reg e) (node_type e) (align_bytes e)) stack_entries\<rparr> \<and>
   render f (ALLOCA (reg e) (node_type e) (align_bytes e)) =
     TAB f @ ''%'' @ percent_llu (reg e) @ '' = alloca '' @ numberTypeLLVMReprs f (node_type e)
       @ '', align '' @ percent_d (align_bytes e) @ NEWLINE f \<and>
   ((\<exists>s1. llvm_preamble env s = Inr s1) \<longrightarrow>
      (\<exists>header rest.
         D_LLVM_FILE (final (generate_llvm f env stack_entries calls s)) =
           D_LLVM_FILE s @ header @ [TEXT define_main]
             @ map (\<lambda>e. ALLOCA (reg e) (node_type e) (align_bytes e)) stack_entries @ rest \<and>
         (\<forall>l\<in>set rest. \<not> is_alloca l)))"
proof -
  let ?allocas = "map (\<lambda>e. ALLOCA (reg e) (node_type e) (align_bytes e)) stack_entries"
  have pass: "\<exists>header rest.
         D_LLVM_FILE (final (generate_llvm f env stack_entries calls s)) =
           D_LLVM_FILE s @ header @ [TEXT define_main] @ ?allocas @ rest \<and>
         (\<forall>l\<in>set rest. \<not> is_alloca l)"
    if pre: "llvm_preamble env s = Inr s1" for s1
  proof -
    from preamble_ends_with_define_main [OF pre] obtain header where
      header: "D_LLVM_FILE s1 = D_LLVM_FILE s @ header @ [TEXT define_main]"
      by blast
    let ?s2 = "llvm_stack_allocation stack_entries s1"
    have s2: "D_LLVM_FILE ?s2 = D_LLVM_FILE s @ header @ [TEXT define_main] @ ?allocas"
      by (simp add: stack_allocation_eq header)
    from emit_all_appends [of calls ?s2] obtain body where
      body: "D_LLVM_FILE (final (emit_all calls ?s2)) = D_LLVM_FILE ?s2 @ body"
        "\<forall>l\<in>set body. \<not> is_alloca l"
      by blast
    show ?thesis
    proof (cases "emit_all calls ?s2")
      case (Inl abort)
      with pre body s2 show ?thesis
        by (intro exI [of _ header] exI [of _ body]) (simp add: generate_llvm_def)
    next
      case (Inr s3)
      from postamble_no_alloca [of f s3] obtain footer where
        footer: "D_LLVM_FILE (llvm_postamble f s3) = D_LLVM_FILE s3 @ footer"
          "\<forall>l\<in>set footer. \<not> is_alloca l"
        by blast
      from Inr body have "D_LLVM_FILE s3 = D_LLVM_FILE ?s2 @ body" by simp
      with pre Inr footer body(2) s2 show ?thesis
        by (intro exI [of _ header] exI [of _ "body @ footer"]) (auto simp: generate_llvm_def)
    qed
  qed
  then show ?thesis
    by (auto simp: stack_allocation_eq)
qed

text \<open>
  A witness, the pass over \<^verbatim>\<open>2 + 3\<close>: the preamble is printed, and after the line that
  opens the function body come the allocations of \<^verbatim>\<open>%1\<close> and \<^verbatim>\<open>%2\<close>, then the two stores,
  the two loads, the addition and the call of \<^verbatim>\<open>printf\<close>.
\<close>

theorem stack_allocations_first_witness:
  "(\<exists>s1. llvm_preamble working_clang (start\<lparr>freeVirtualRegistersHead := [1, 2]\<rparr>) = Inr s1) \<and>
   last (D_LLVM_FILE (final (llvm_preamble working_clang
                               (start\<lparr>freeVirtualRegistersHead := [1, 2]\<rparr>)))) =
     TEXT define_main \<and>
   D_LLVM_FILE (final (generate_llvm tab_newline working_clang two_entries two_plus_three
                         (start\<lparr>freeVirtualRegistersHead := [1, 2]\<rparr>))) =
     D_LLVM_FILE (final (llvm_preamble working_clang
                           (start\<lparr>freeVirtualRegistersHead := [1, 2]\<rparr>)))
       @ [ALLOCA 1 NT_INT32 4, ALLOCA 2 NT_INT32 4]
       @ [STORE NT_INT32 ''%d'' 2 1 4, STORE NT_INT32 ''%d'' 3 2 4, LOAD 3 1, LOAD 4 2,
          ADD 5 3 4, CALL_PRINTF 5]
       @ D_LLVM_FILE (llvm_postamble tab_newline (start\<lparr>D_LLVM_FILE := []\<rparr>))"
proof -
  let ?s = "start\<lparr>freeVirtualRegistersHead := [1, 2]\<rparr>"
  note probe = working_clang_def stale_file_def start_def datalayout_line_def
    llvm_preamble_def get_target_datalayout_def create_tmp_generator_program_def
    get_target_triple_def regex_match_def datalayout_regex_def purple_log_def Let_def
    fprintf_def fprintf_lines_eq
  have pre: "\<exists>s1. llvm_preamble working_clang ?s = Inr s1"
    by (simp add: probe)
  have opened: "last (D_LLVM_FILE (final (llvm_preamble working_clang ?s))) = TEXT define_main"
    by (simp add: probe)
  have printed: "D_LLVM_FILE (final (generate_llvm tab_newline working_clang two_entries
                                    two_plus_three ?s)) =
      D_LLVM_FILE (final (llvm_preamble working_clang ?s))
        @ [ALLOCA 1 NT_INT32 4, ALLOCA 2 NT_INT32 4]
        @ [STORE NT_INT32 ''%d'' 2 1 4, STORE NT_INT32 ''%d'' 3 2 4, LOAD 3 1, LOAD 4 2,
           ADD 5 3 4, CALL_PRINTF 5]
        @ D_LLVM_FILE (llvm_postamble tab_newline (start\<lparr>D_LLVM_FILE := []\<rparr>))"
    by (simp add: probe generate_llvm_def stack_allocation_eq two_entries_def
        two_plus_three_def store_constant_cases NUMBER_INT32_def
        llvm_ensure_registers_loaded_def zeroed_def search_for.simps load_for.simps
        get_next_local_virtual_register_def prepend_loaded_eq binary_arithmetic_cases
        print_int_eq LLVMVALUE_VIRTUAL_REGISTER_def llvm_postamble_def)
  from pre
    stack_allocations_first
      [where stack_entries = two_entries and s = ?s and f = tab_newline
         and env = working_clang and calls = two_plus_three]
  have "\<exists>header rest.
      D_LLVM_FILE (final (generate_llvm tab_newline working_clang two_entries two_plus_three ?s)) =
        D_LLVM_FILE ?s @ header @ [TEXT define_main]
          @ map (\<lambda>e. ALLOCA (reg e) (node_type e) (align_bytes e)) two_entries @ rest \<and>
      (\<forall>l\<in>set rest. \<not> is_alloca l)"
    by blast
  with pre opened printed show ?thesis
    by blast
qed

subsection \<open>C9: the loaded list only grows\<close>

text \<open>
  C9. \<^verbatim>\<open>prepend_loaded\<close> puts one register at the head of the loaded list. Every call of
  \<^verbatim>\<open>llvm_ensure_registers_loaded\<close> (whatever its stack array holds), of
  \<^verbatim>\<open>llvm_binary_arithmetic\<close> (aborted or not), of \<^verbatim>\<open>llvm_store_constant\<close> and of
  \<^verbatim>\<open>llvm_print_int\<close>, and every sequence of such calls, leaves the loaded list as it was
  or with new entries in front of the old ones: no entry is removed or changed, and the
  set of the registers in the list grows monotonically.
\<close>

theorem loaded_list_append_only:
  "loadedRegistersHead (prepend_loaded r s) = r # loadedRegistersHead s \<and>
   suffix (loadedRegistersHead s)
     (loadedRegistersHead (snd (llvm_ensure_registers_loaded stack registers s))) \<and>
   suffix (loadedRegistersHead s)
     (loadedRegistersHead
        (final (map_sum id snd (llvm_binary_arithmetic operation left right s)))) \<and>
   suffix (loadedRegistersHead s) (loadedRegistersHead (final (emit c s))) \<and>
   suffix (loadedRegistersHead s) (loadedRegistersHead (final (emit_all calls s))) \<and>
   set (loadedRegistersHead s) \<subseteq> set (loadedRegistersHead (final (emit_all calls s)))"
proof -
  have 1: "suffix (loadedRegistersHead s)
     (loadedRegistersHead (snd (llvm_ensure_registers_loaded stack registers s)))"
    using ensure_loaded_any_stack [of stack registers s] by (auto simp: suffix_def)
  have 2: "suffix (loadedRegistersHead s)
     (loadedRegistersHead
        (final (map_sum id snd (llvm_binary_arithmetic operation left right s))))"
    by (simp add: binary_arithmetic_cases suffix_def)
  have 3: "suffix (loadedRegistersHead s) (loadedRegistersHead (final (emit c s)))"
    using emit_appends [of c s] by (auto simp: suffix_def)
  have 4: "suffix (loadedRegistersHead s) (loadedRegistersHead (final (emit_all calls s)))"
    using emit_all_appends [of calls s] by (auto simp: suffix_def)
  from 4 have 5: "set (loadedRegistersHead s) \<subseteq> set (loadedRegistersHead (final (emit_all calls s)))"
    by (rule set_mono_suffix)
  from 1 2 3 4 5 show ?thesis by (simp add: prepend_loaded_eq)
qed

subsection \<open>C10: printing an integer\<close>

text \<open>
  C10. \<^verbatim>\<open>llvm_print_int\<close> increments the counter of virtual registers by one and prints
  one call of \<^verbatim>\<open>printf\<close>, which names the register to print and no result register; the
  number taken from the counter is on no line, and the next register issued is the one
  after it. The counter and the file are all that the call changes: the loaded list and
  the stack of free registers are as before.
\<close>

theorem llvm_print_int_skips_a_register:
  "llvm_print_int print_vr s =
     s\<lparr>D_LLVM_LOCAL_VIRTUAL_REGISTER_NUMBER := D_LLVM_LOCAL_VIRTUAL_REGISTER_NUMBER s + 1,
       D_LLVM_FILE := D_LLVM_FILE s @ [CALL_PRINTF print_vr]\<rparr> \<and>
   fst (get_next_local_virtual_register (llvm_print_int print_vr s)) =
     D_LLVM_LOCAL_VIRTUAL_REGISTER_NUMBER s + 1 \<and>
   loadedRegistersHead (llvm_print_int print_vr s) = loadedRegistersHead s \<and>
   freeVirtualRegistersHead (llvm_print_int print_vr s) = freeVirtualRegistersHead s \<and>
   render f (CALL_PRINTF print_vr) =
     TAB f @ ''call i32 (i8*, ...) @printf(i8* getelementptr inbounds ([4 x i8], [4 x ''
       @ ''i8]* @print_int_fstring , i32 0, i32 0), i32 %'' @ percent_llu print_vr @ '')''
       @ NEWLINE f"
  by (simp add: print_int_eq get_next_local_virtual_register_def)

end
